theory Spec2Isabelle
  imports Complex_Main
begin

section \<open>Data model (types.ts)\<close>

datatype priority = High | Medium | Low

text \<open>
  A task as declared by the \<^verbatim>\<open>Task\<close> interface.  The field \<^verbatim>\<open>notified\<close> is
  optional, so it is absent (\<open>None\<close>), \<open>false\<close> or \<open>true\<close>.  \<^verbatim>\<open>createdAt\<close> is written
  by App.tsx when a task is created and is carried along untouched by the scan.
\<close>

record task =
  task_id :: string
  title :: string
  time :: string
  date :: string
  priority :: priority
  completed :: bool
  notified :: "bool option"
  createdAt :: "int option"

datatype theme = Light | Dark

datatype sound_mode = Bell | Tts | Custom

record app_settings =
  theme :: theme
  autoComplete :: bool
  soundMode :: sound_mode
  customSoundData :: "string option"
  customSoundName :: "string option"
  volume :: real
  audioDuration :: int
  audioLoop :: bool
  voiceURI :: "string option"

section \<open>The due-task scan (App.tsx, timer effect)\<close>

subsection \<open>Formatting the wall clock\<close>

text \<open>
  The fields of \<^verbatim>\<open>now = new Date()\<close> that the tick reads: \<^verbatim>\<open>getFullYear()\<close>,
  \<^verbatim>\<open>getMonth()\<close> (zero based), \<^verbatim>\<open>getDate()\<close>, and the hour and minute that
  \<^verbatim>\<open>toLocaleTimeString\<close> prints.
\<close>

record local_time =
  fullYear :: nat
  month :: nat
  dayOfMonth :: nat
  hours :: nat
  minutes :: nat

definition digit_char :: "nat \<Rightarrow> char" where
  "digit_char d = char_of (48 + d)"

text \<open>\<^verbatim>\<open>String(n)\<close> for a non-negative integer: its decimal digits.\<close>

fun string_of_nat :: "nat \<Rightarrow> string" where
  "string_of_nat n =
     (if n < 10 then [digit_char n]
      else string_of_nat (n div 10) @ [digit_char (n mod 10)])"

declare string_of_nat.simps [simp del]

text \<open>\<^verbatim>\<open>s.padStart(n, c)\<close> with a one-character pad string.\<close>

definition padStart :: "nat \<Rightarrow> char \<Rightarrow> string \<Rightarrow> string" where
  "padStart n c s = replicate (n - length s) c @ s"

text \<open>
  \<^verbatim>\<open>now.getFullYear() + '-' + String(now.getMonth() + 1).padStart(2, '0') + '-' +
  String(now.getDate()).padStart(2, '0')\<close>
\<close>

definition currentDate :: "local_time \<Rightarrow> string" where
  "currentDate now =
     string_of_nat (fullYear now) @ ''-'' @
     padStart 2 (CHR ''0'') (string_of_nat (month now + 1)) @ ''-'' @
     padStart 2 (CHR ''0'') (string_of_nat (dayOfMonth now))"

text \<open>
  \<^verbatim>\<open>now.toLocaleTimeString('en-GB', { hour: '2-digit', minute: '2-digit' })\<close>: the
  24-hour clock, two digits each, seconds dropped.
\<close>

definition currentTime :: "local_time \<Rightarrow> string" where
  "currentTime now =
     padStart 2 (CHR ''0'') (string_of_nat (hours now)) @ '':'' @
     padStart 2 (CHR ''0'') (string_of_nat (minutes now))"

subsection \<open>Well-formed dates and times\<close>

text \<open>
  What it means for a task's \<^verbatim>\<open>date\<close> to parse as \<^verbatim>\<open>YYYY-MM-DD\<close> and its \<^verbatim>\<open>time\<close> as
  \<^verbatim>\<open>HH:mm\<close>: the shape (the one the CSV import tests with \<^verbatim>\<open>/^\d{4}-\d{2}-\d{2}$/\<close> and,
  after padding the hour, \<^verbatim>\<open>/^\d{1,2}:\d{2}$/\<close>) and the ranges of a calendar date and of a
  time of day.
\<close>

definition is_digit :: "char \<Rightarrow> bool" where
  "is_digit c \<longleftrightarrow> (48::nat) \<le> of_char c \<and> (of_char c :: nat) \<le> 57"

definition digit_value :: "char \<Rightarrow> nat" where
  "digit_value c = of_char c - 48"

definition leap_year :: "nat \<Rightarrow> bool" where
  "leap_year y \<longleftrightarrow> y mod 4 = 0 \<and> (y mod 100 \<noteq> 0 \<or> y mod 400 = 0)"

definition days_in_month :: "nat \<Rightarrow> nat \<Rightarrow> nat" where
  "days_in_month y m =
     (if m = 2 then (if leap_year y then 29 else 28)
      else if m = 4 \<or> m = 6 \<or> m = 9 \<or> m = 11 then 30
      else 31)"

fun is_date :: "string \<Rightarrow> bool" where
  "is_date [y1, y2, y3, y4, s1, m1, m2, s2, d1, d2] \<longleftrightarrow>
     is_digit y1 \<and> is_digit y2 \<and> is_digit y3 \<and> is_digit y4 \<and> s1 = CHR ''-'' \<and>
     is_digit m1 \<and> is_digit m2 \<and> s2 = CHR ''-'' \<and> is_digit d1 \<and> is_digit d2 \<and>
     1 \<le> 10 * digit_value m1 + digit_value m2 \<and> 10 * digit_value m1 + digit_value m2 \<le> 12 \<and>
     1 \<le> 10 * digit_value d1 + digit_value d2 \<and>
     10 * digit_value d1 + digit_value d2 \<le>
       days_in_month
         (1000 * digit_value y1 + 100 * digit_value y2 + 10 * digit_value y3 + digit_value y4)
         (10 * digit_value m1 + digit_value m2)"
| "is_date _ \<longleftrightarrow> False"

fun is_time :: "string \<Rightarrow> bool" where
  "is_time [h1, h2, s, m1, m2] \<longleftrightarrow>
     is_digit h1 \<and> is_digit h2 \<and> s = CHR '':'' \<and> is_digit m1 \<and> is_digit m2 \<and>
     10 * digit_value h1 + digit_value h2 < 24 \<and> 10 * digit_value m1 + digit_value m2 < 60"
| "is_time _ \<longleftrightarrow> False"

text \<open>
  A clock that shows a calendar date of a four-digit year: the ranges \<^verbatim>\<open>Date\<close> delivers
  for the month, the day, the hour and the minute, and a year that \<^verbatim>\<open>getFullYear()\<close>
  renders with four digits.
\<close>

definition valid_clock :: "local_time \<Rightarrow> bool" where
  "valid_clock now \<longleftrightarrow>
     1000 \<le> fullYear now \<and> fullYear now \<le> 9999 \<and> month now < 12 \<and>
     1 \<le> dayOfMonth now \<and> dayOfMonth now \<le> days_in_month (fullYear now) (month now + 1) \<and>
     hours now < 24 \<and> minutes now < 60"

subsection \<open>One tick\<close>

datatype permission = Granted | Denied | Default

text \<open>
  The \<^verbatim>\<open>Notification\<close> global as the tick finds it: absent from the platform (the mount
  effect tests \<^verbatim>\<open>'Notification' in window\<close> for this reason), or present with its
  \<^verbatim>\<open>permission\<close>.
\<close>

datatype notification_api = NotificationAbsent | NotificationPermission permission

datatype js_error = ReferenceError

text \<open>
  What the callback of \<^verbatim>\<open>currentTasks.map\<close> does besides returning a task:
  \<^verbatim>\<open>setIsAlarmRinging(true)\<close>, \<^verbatim>\<open>audioService.playNotification(settings, task.title, ...)\<close>
  and \<^verbatim>\<open>new Notification(...)\<close>.
\<close>

datatype effect =
    SetIsAlarmRinging bool
  | CallPlayNotification app_settings string
  | NewNotification string

text \<open>JavaScript truthiness of the optional boolean \<^verbatim>\<open>task.notified\<close>.\<close>

fun truthy :: "bool option \<Rightarrow> bool" where
  "truthy None = False"
| "truthy (Some b) = b"

text \<open>
  \<^verbatim>\<open>!task.completed && !task.notified && task.date === currentDate &&
  task.time === currentTime\<close>
\<close>

definition newly_due :: "string \<Rightarrow> string \<Rightarrow> task \<Rightarrow> bool" where
  "newly_due cd ct t \<longleftrightarrow>
     \<not> completed t \<and> \<not> truthy (notified t) \<and> date t = cd \<and> time t = ct"

text \<open>
  The body of the \<^verbatim>\<open>map\<close> callback, given the local \<^verbatim>\<open>hasChanges\<close> and the effects
  issued so far.  For a newly due task it rings and calls \<^verbatim>\<open>playNotification\<close>, then reads
  \<^verbatim>\<open>Notification.permission\<close>: where the global is absent this read throws a
  \<^verbatim>\<open>ReferenceError\<close>, after the two effects and before \<^verbatim>\<open>hasChanges\<close> is set and the
  marked task is returned.  The effects issued stay issued in either case.
\<close>

definition scan_callback ::
  "app_settings \<Rightarrow> notification_api \<Rightarrow> string \<Rightarrow> string \<Rightarrow> task \<Rightarrow> bool \<Rightarrow> effect list
     \<Rightarrow> (js_error + task \<times> bool) \<times> effect list" where
  "scan_callback st api cd ct t hasChanges effs =
     (if newly_due cd ct t then
        (let effs1 = effs @ [SetIsAlarmRinging True, CallPlayNotification st (title t)]
         in case api of
              NotificationAbsent \<Rightarrow> (Inl ReferenceError, effs1)
            | NotificationPermission p \<Rightarrow>
                (Inr (t\<lparr>notified := Some True,
                        completed := (if autoComplete st then True else completed t)\<rparr>,
                      True),
                 effs1 @ (if p = Granted then [NewNotification (''Task Due: '' @ title t)] else [])))
      else (Inr (t, hasChanges), effs))"

text \<open>\<^verbatim>\<open>currentTasks.map(...)\<close>: an exception in the callback ends the loop.\<close>

fun map_tasks ::
  "app_settings \<Rightarrow> notification_api \<Rightarrow> string \<Rightarrow> string \<Rightarrow> task list \<Rightarrow> bool \<Rightarrow> effect list
     \<Rightarrow> (js_error + task list \<times> bool) \<times> effect list" where
  "map_tasks st api cd ct [] hasChanges effs = (Inr ([], hasChanges), effs)"
| "map_tasks st api cd ct (t # ts) hasChanges effs =
     (case scan_callback st api cd ct t hasChanges effs of
        (Inl e, effs1) \<Rightarrow> (Inl e, effs1)
      | (Inr (t', hasChanges1), effs1) \<Rightarrow>
          (case map_tasks st api cd ct ts hasChanges1 effs1 of
             (Inl e, effs2) \<Rightarrow> (Inl e, effs2)
           | (Inr (ts', hasChanges2), effs2) \<Rightarrow> (Inr (t' # ts', hasChanges2), effs2)))"

text \<open>
  Which array the updater returns: \<^verbatim>\<open>currentTasks\<close> itself, or the new array
  \<^verbatim>\<open>updatedTasks\<close> that \<^verbatim>\<open>map\<close> built.
\<close>

datatype returned = CurrentTasks | UpdatedTasks "task list"

text \<open>
  The function passed to \<^verbatim>\<open>setTasks\<close>: it returns
  \<^verbatim>\<open>hasChanges ? updatedTasks : currentTasks\<close>, or throws what the callback threw.
\<close>

definition updater ::
  "app_settings \<Rightarrow> notification_api \<Rightarrow> local_time \<Rightarrow> task list
     \<Rightarrow> (js_error + returned) \<times> effect list" where
  "updater st api now currentTasks =
     (case map_tasks st api (currentDate now) (currentTime now) currentTasks False [] of
        (Inl e, effs) \<Rightarrow> (Inl e, effs)
      | (Inr (updatedTasks, hasChanges), effs) \<Rightarrow>
          (Inr (if hasChanges then UpdatedTasks updatedTasks else CurrentTasks), effs))"

text \<open>
  One tick: the collection held after \<^verbatim>\<open>setTasks\<close> and the effects issued.  An updater
  that throws leaves the collection as it was.
\<close>

definition tick ::
  "app_settings \<Rightarrow> notification_api \<Rightarrow> local_time \<Rightarrow> task list \<Rightarrow> task list \<times> effect list" where
  "tick st api now currentTasks =
     (case updater st api now currentTasks of
        (Inl e, effs) \<Rightarrow> (currentTasks, effs)
      | (Inr CurrentTasks, effs) \<Rightarrow> (currentTasks, effs)
      | (Inr (UpdatedTasks updatedTasks), effs) \<Rightarrow> (updatedTasks, effs))"

text \<open>
  Successive ticks of the interval; the settings, the platform's notification state and the
  clock may differ from tick to tick.
\<close>

fun run_ticks ::
  "(app_settings \<times> notification_api \<times> local_time) list \<Rightarrow> task list
     \<Rightarrow> task list \<times> effect list" where
  "run_ticks [] ts = (ts, [])"
| "run_ticks ((st, api, now) # rest) ts =
     (case tick st api now ts of
        (ts', effs) \<Rightarrow> (case run_ticks rest ts' of (ts'', effs') \<Rightarrow> (ts'', effs @ effs')))"

fun is_alert :: "effect \<Rightarrow> bool" where
  "is_alert (CallPlayNotification _ _) = True"
| "is_alert _ = False"

subsection \<open>Defaults and the scenario of the specification\<close>

definition DEFAULT_SETTINGS :: app_settings where
  "DEFAULT_SETTINGS =
     \<lparr>theme = Light, autoComplete = False, soundMode = Bell, customSoundData = None,
      customSoundName = None, volume = 0.8, audioDuration = 30, audioLoop = True,
      voiceURI = None\<rparr>"

definition scenario_task :: task where
  "scenario_task =
     \<lparr>task_id = ''t1'', title = ''Stand-up'', time = ''09:00'', date = ''2024-01-15'',
      priority = Medium, completed = False, notified = Some False, createdAt = None\<rparr>"

definition scenario_now :: local_time where
  "scenario_now = \<lparr>fullYear = 2024, month = 0, dayOfMonth = 15, hours = 9, minutes = 0\<rparr>"

definition later_task :: task where
  "later_task =
     \<lparr>task_id = ''t2'', title = ''Lunch'', time = ''12:30'', date = ''2024-01-15'',
      priority = Low, completed = False, notified = None, createdAt = Some 1705300000000\<rparr>"

definition malformed_task :: task where
  "malformed_task =
     \<lparr>task_id = ''t3'', title = ''Call'', time = ''9:00'', date = ''2024-01-15'',
      priority = High, completed = False, notified = None, createdAt = None\<rparr>"

text \<open>A task whose date has the shape of a date and names no day of the calendar.\<close>

definition impossible_task :: task where
  "impossible_task =
     \<lparr>task_id = ''t5'', title = ''Audit'', time = ''09:00'', date = ''2024-02-30'',
      priority = Low, completed = False, notified = None, createdAt = None\<rparr>"

text \<open>A clock in the year 10000 and a task dated in that year.\<close>

definition far_now :: local_time where
  "far_now = \<lparr>fullYear = 10000, month = 0, dayOfMonth = 1, hours = 9, minutes = 0\<rparr>"

definition far_task :: task where
  "far_task =
     \<lparr>task_id = ''t4'', title = ''Review'', time = ''09:00'', date = ''10000-01-01'',
      priority = Medium, completed = False, notified = None, createdAt = None\<rparr>"

section \<open>The alert player (services/audioService.ts)\<close>

subsection \<open>The service object and the platform it drives\<close>

text \<open>
  Timer handles, the identities of started source nodes, of \<^verbatim>\<open>onEnd\<close> closures and of decoded
  audio buffers are numbers.
\<close>

type_synonym handle = nat
type_synonym node = nat
type_synonym callback = nat
type_synonym buffer = nat

text \<open>
  A started source node: the oscillator of \<^verbatim>\<open>playBellSound\<close> with its gain, or the buffer
  source of \<^verbatim>\<open>playCustom\<close> with its buffer, gain and \<^verbatim>\<open>loop\<close> flag.
\<close>

datatype source_kind = Oscillator real | BufferSource buffer real bool

text \<open>
  The closures handed to \<^verbatim>\<open>setTimeout\<close> and \<^verbatim>\<open>setInterval\<close>:
  \<^verbatim>\<open>() => { this.stop() }\<close>, \<^verbatim>\<open>speakLoop\<close> (with the text, volume and voice it closes
  over) and \<^verbatim>\<open>() => { this.playBellSound(volume) }\<close>.
\<close>

datatype timer_callback =
    StopPlayback
  | SpeakLoop string real "string option"
  | RingBell real

datatype timer = Timeout int timer_callback | Interval int timer_callback

text \<open>
  The closures assigned to \<^verbatim>\<open>utterance.onend\<close>:
  \<^verbatim>\<open>() => { this.loopInterval = window.setTimeout(speakLoop, 1000) }\<close> and
  \<^verbatim>\<open>() => { if (this.onPlaybackEnd) this.onPlaybackEnd() }\<close>.
\<close>

datatype utterance_end =
    ChainNext string real "string option"
  | NaturalEnd

record utterance =
  u_text :: string
  u_volume :: real
  u_voice :: "string option"
  u_onend :: "utterance_end option"

text \<open>
  An \<^verbatim>\<open>async\<close> call parked at an \<^verbatim>\<open>await\<close>: \<^verbatim>\<open>playNotification\<close> at
  \<^verbatim>\<open>await this.audioContext.resume()\<close>, or \<^verbatim>\<open>playCustom\<close> at the
  fetch/arrayBuffer/decodeAudioData chain (payload, volume, loop).  Nothing between the three
  awaits of that chain reads or writes the service, so they are one suspension.
\<close>

datatype suspended_call =
    AwaitResume app_settings string
  | AwaitDecode string real bool

text \<open>
  The private fields of \<^verbatim>\<open>AudioService\<close>, followed by the state of the platform: whether
  an \<^verbatim>\<open>AudioContext\<close> can be constructed, whether the context is suspended, whether
  \<^verbatim>\<open>speechSynthesis\<close> exists and which voices it offers, the armed timers, the source nodes
  that are sounding, the utterances queued for speech, the parked calls, and the log of
  \<^verbatim>\<open>onEnd\<close> callbacks invoked so far.
\<close>

record player =
  audioContext :: bool
  customAudioBuffer :: "buffer option"
  currentSource :: "node option"
  stopTimeout :: "handle option"
  loopInterval :: "handle option"
  onPlaybackEnd :: "callback option"
  contextAvailable :: bool
  contextSuspended :: bool
  speechAvailable :: bool
  voices :: "string list"
  timers :: "(handle \<times> timer) list"
  timerSeq :: nat
  playing :: "(node \<times> source_kind) list"
  nodeSeq :: nat
  speechQueue :: "utterance list"
  suspended :: "suspended_call list"
  invoked :: "callback list"

datatype outcome = Returned | Threw

text \<open>
  The service as constructed, on a platform described by four parameters: whether an audio
  context can be created, whether the context is in the suspended state, whether speech
  synthesis exists, and the voices it offers.
\<close>

definition initial :: "bool \<Rightarrow> bool \<Rightarrow> bool \<Rightarrow> string list \<Rightarrow> player" where
  "initial ctx susp speech vs =
     \<lparr>audioContext = False, customAudioBuffer = None, currentSource = None,
      stopTimeout = None, loopInterval = None, onPlaybackEnd = None,
      contextAvailable = ctx, contextSuspended = susp, speechAvailable = speech,
      voices = vs, timers = [], timerSeq = 0, playing = [], nodeSeq = 0,
      speechQueue = [], suspended = [], invoked = []\<rparr>"

subsection \<open>Platform operations\<close>

text \<open>
  \<^verbatim>\<open>window.setTimeout\<close> and \<^verbatim>\<open>window.setInterval\<close> return a fresh positive handle;
  \<^verbatim>\<open>clearTimeout\<close> and \<^verbatim>\<open>clearInterval\<close> work on the same pool of handles.
\<close>

definition setTimer :: "timer \<Rightarrow> player \<Rightarrow> handle \<times> player" where
  "setTimer t s =
     (let h = Suc (timerSeq s) in (h, s\<lparr>timerSeq := h, timers := timers s @ [(h, t)]\<rparr>))"

definition clearTimer :: "handle \<Rightarrow> player \<Rightarrow> player" where
  "clearTimer h s = s\<lparr>timers := filter (\<lambda>e. fst e \<noteq> h) (timers s)\<rparr>"

text \<open>\<^verbatim>\<open>node.start()\<close> followed by \<^verbatim>\<open>this.currentSource = node\<close>.\<close>

definition start_node :: "source_kind \<Rightarrow> player \<Rightarrow> player" where
  "start_node k s =
     (let n = Suc (nodeSeq s)
      in s\<lparr>nodeSeq := n, playing := playing s @ [(n, k)], currentSource := Some n\<rparr>)"

fun loops :: "source_kind \<Rightarrow> bool" where
  "loops (Oscillator _) = False"
| "loops (BufferSource _ _ l) = l"

subsection \<open>The methods of the service\<close>

text \<open>
  Each method takes the state and returns the new one.  A method that can throw (for an
  \<^verbatim>\<open>async\<close> method: whose promise can be rejected) also returns an \<open>outcome\<close>; the state
  reached before the exception stays as it is.  The only exception modelled is
  \<^verbatim>\<open>new AudioContext()\<close> failing.  Of a tone only the started oscillator and its gain are
  kept (not its frequency ramps); \<^verbatim>\<open>playSuccessSound\<close>, which no alert uses and which
  touches no field of the service, is left out.  \<^verbatim>\<open>speechSynthesis.cancel()\<close> empties the
  speech queue and delivers no end event for the utterances it removes.
\<close>

definition getContext :: "player \<Rightarrow> player option" where
  "getContext s =
     (if audioContext s then Some s
      else if contextAvailable s then Some (s\<lparr>audioContext := True\<rparr>)
      else None)"

definition playBellSound :: "real \<Rightarrow> player \<Rightarrow> outcome \<times> player" where
  "playBellSound vol s =
     (case getContext s of
        None \<Rightarrow> (Threw, s)
      | Some s1 \<Rightarrow> (Returned, start_node (Oscillator vol) s1))"

definition speakText ::
  "string \<Rightarrow> real \<Rightarrow> string option \<Rightarrow> utterance_end option \<Rightarrow> player \<Rightarrow> player" where
  "speakText text vol uri onEnd s =
     (if speechAvailable s then
        (let s1 = s\<lparr>speechQueue := []\<rparr>;
             u = \<lparr>u_text = text, u_volume = vol,
                  u_voice = (case uri of
                               None \<Rightarrow> None
                             | Some v \<Rightarrow> if v \<noteq> [] \<and> v \<in> set (voices s1) then Some v else None),
                  u_onend = onEnd\<rparr>
         in s1\<lparr>speechQueue := speechQueue s1 @ [u]\<rparr>)
      else s)"

definition playCustom :: "string \<Rightarrow> real \<Rightarrow> bool \<Rightarrow> player \<Rightarrow> outcome \<times> player" where
  "playCustom base64Data vol loop s =
     (case getContext s of
        None \<Rightarrow> playBellSound vol s
      | Some s1 \<Rightarrow>
          (case customAudioBuffer s1 of
             None \<Rightarrow> (Returned, s1\<lparr>suspended := suspended s1 @ [AwaitDecode base64Data vol loop]\<rparr>)
           | Some b \<Rightarrow> (Returned, start_node (BufferSource b vol loop) s1)))"

definition clearCustomCache :: "player \<Rightarrow> player" where
  "clearCustomCache s = s\<lparr>customAudioBuffer := None\<rparr>"

text \<open>The four numbered steps of \<^verbatim>\<open>stop\<close>, in the order of the source.\<close>

definition stop_sources :: "player \<Rightarrow> player" where
  "stop_sources s =
     (case currentSource s of
        Some n \<Rightarrow> s\<lparr>playing := filter (\<lambda>e. fst e \<noteq> n) (playing s), currentSource := None\<rparr>
      | None \<Rightarrow> s)"

definition stop_tts :: "player \<Rightarrow> player" where
  "stop_tts s = (if speechAvailable s then s\<lparr>speechQueue := []\<rparr> else s)"

definition clear_stopTimeout :: "player \<Rightarrow> player" where
  "clear_stopTimeout s =
     (case stopTimeout s of
        Some h \<Rightarrow> if h \<noteq> 0 then (clearTimer h s)\<lparr>stopTimeout := None\<rparr> else s
      | None \<Rightarrow> s)"

definition clear_loopInterval :: "player \<Rightarrow> player" where
  "clear_loopInterval s =
     (case loopInterval s of
        Some h \<Rightarrow> if h \<noteq> 0 then (clearTimer h s)\<lparr>loopInterval := None\<rparr> else s
      | None \<Rightarrow> s)"

definition trigger_callback :: "player \<Rightarrow> player" where
  "trigger_callback s =
     (case onPlaybackEnd s of
        Some cb \<Rightarrow> s\<lparr>invoked := invoked s @ [cb], onPlaybackEnd := None\<rparr>
      | None \<Rightarrow> s)"

definition stop :: "player \<Rightarrow> player" where
  "stop s =
     trigger_callback (clear_loopInterval (clear_stopTimeout (stop_tts (stop_sources s))))"

definition speakLoop :: "string \<Rightarrow> real \<Rightarrow> string option \<Rightarrow> player \<Rightarrow> player" where
  "speakLoop text vol uri s = speakText text vol uri (Some (ChainNext text vol uri)) s"

text \<open>The final \<^verbatim>\<open>else\<close> branch of \<^verbatim>\<open>playNotification\<close>, marked \<^verbatim>\<open>// Bell\<close>.\<close>

definition bell_branch :: "app_settings \<Rightarrow> player \<Rightarrow> outcome \<times> player" where
  "bell_branch st s =
     (if audioLoop st then
        (case playBellSound (volume st) s of
           (Threw, s1) \<Rightarrow> (Threw, s1)
         | (Returned, s1) \<Rightarrow>
             (case setTimer (Interval 1000 (RingBell (volume st))) s1 of
                (h, s2) \<Rightarrow> (Returned, s2\<lparr>loopInterval := Some h\<rparr>)))
      else playBellSound (volume st) s)"

text \<open>\<^verbatim>\<open>playNotification\<close> from the line after \<^verbatim>\<open>await this.audioContext.resume()\<close>.\<close>

definition playNotification_rest :: "app_settings \<Rightarrow> string \<Rightarrow> player \<Rightarrow> outcome \<times> player" where
  "playNotification_rest st taskTitle s =
     (let s1 = (if audioDuration st > 0 then
                  (case setTimer (Timeout (audioDuration st * 1000) StopPlayback) s of
                     (h, s') \<Rightarrow> s'\<lparr>stopTimeout := Some h\<rparr>)
                else s)
      in if soundMode st = Tts then
           (let text = ''Task due: '' @ taskTitle
            in if audioLoop st then (Returned, speakLoop text (volume st) (voiceURI st) s1)
               else (Returned, speakText text (volume st) (voiceURI st) (Some NaturalEnd) s1))
         else
           (case customSoundData st of
              Some d \<Rightarrow>
                if soundMode st = Custom \<and> d \<noteq> [] then playCustom d (volume st) (audioLoop st) s1
                else bell_branch st s1
            | None \<Rightarrow> bell_branch st s1))"

definition playNotification ::
  "app_settings \<Rightarrow> string \<Rightarrow> callback option \<Rightarrow> player \<Rightarrow> outcome \<times> player" where
  "playNotification st taskTitle onEnd s =
     (let s1 = (stop s)\<lparr>onPlaybackEnd := onEnd\<rparr>
      in if audioContext s1 \<and> contextSuspended s1
         then (Returned, s1\<lparr>suspended := suspended s1 @ [AwaitResume st taskTitle]\<rparr>)
         else playNotification_rest st taskTitle s1)"

subsection \<open>Events\<close>

datatype settled = Fulfilled buffer | Rejected

text \<open>
  What can happen to the service: a call of one of its public methods, a timer firing, the
  utterance at the head of the speech queue finishing, a sounding node reaching its end, and
  the promise a parked call waits for being settled.
\<close>

datatype event =
    PlayNotification app_settings string "callback option"
  | Stop
  | ClearCustomCache
  | TimerFires handle
  | UtteranceEnds
  | SourceEnds node
  | Settles nat settled

fun run_timer :: "timer_callback \<Rightarrow> player \<Rightarrow> outcome \<times> player" where
  "run_timer StopPlayback s = (Returned, stop s)"
| "run_timer (SpeakLoop text vol uri) s = (Returned, speakLoop text vol uri s)"
| "run_timer (RingBell vol) s = playBellSound vol s"

text \<open>A timeout is gone once it has fired; an interval stays armed.\<close>

definition timer_fires :: "handle \<Rightarrow> player \<Rightarrow> outcome \<times> player" where
  "timer_fires h s =
     (case map_of (timers s) h of
        None \<Rightarrow> (Returned, s)
      | Some (Timeout d cb) \<Rightarrow> run_timer cb (clearTimer h s)
      | Some (Interval d cb) \<Rightarrow> run_timer cb s)"

definition utterance_ends :: "player \<Rightarrow> outcome \<times> player" where
  "utterance_ends s =
     (case speechQueue s of
        [] \<Rightarrow> (Returned, s)
      | u # us \<Rightarrow>
          (let s1 = s\<lparr>speechQueue := us\<rparr>
           in case u_onend u of
                None \<Rightarrow> (Returned, s1)
              | Some (ChainNext text vol uri) \<Rightarrow>
                  (case setTimer (Timeout 1000 (SpeakLoop text vol uri)) s1 of
                     (h, s2) \<Rightarrow> (Returned, s2\<lparr>loopInterval := Some h\<rparr>))
              | Some NaturalEnd \<Rightarrow>
                  (case onPlaybackEnd s1 of
                     Some cb \<Rightarrow> (Returned, s1\<lparr>invoked := invoked s1 @ [cb]\<rparr>)
                   | None \<Rightarrow> (Returned, s1))))"

text \<open>
  An oscillator ends at its scheduled stop and a buffer source that does not loop ends with
  its buffer; a looping buffer source never ends by itself.
\<close>

definition source_ends :: "node \<Rightarrow> player \<Rightarrow> player" where
  "source_ends n s = s\<lparr>playing := filter (\<lambda>e. fst e \<noteq> n \<or> loops (snd e)) (playing s)\<rparr>"

definition settles :: "nat \<Rightarrow> settled \<Rightarrow> player \<Rightarrow> outcome \<times> player" where
  "settles i r s =
     (if i < length (suspended s) then
        (let s1 = s\<lparr>suspended := take i (suspended s) @ drop (Suc i) (suspended s)\<rparr>
         in case suspended s ! i of
              AwaitResume st taskTitle \<Rightarrow>
                (case r of
                   Fulfilled _ \<Rightarrow> playNotification_rest st taskTitle (s1\<lparr>contextSuspended := False\<rparr>)
                 | Rejected \<Rightarrow> (Threw, s1))
            | AwaitDecode d vol loop \<Rightarrow>
                (case r of
                   Fulfilled b \<Rightarrow>
                     (Returned, start_node (BufferSource b vol loop) (s1\<lparr>customAudioBuffer := Some b\<rparr>))
                 | Rejected \<Rightarrow> playBellSound vol s1))
      else (Returned, s))"

fun step :: "event \<Rightarrow> player \<Rightarrow> outcome \<times> player" where
  "step (PlayNotification st taskTitle onEnd) s = playNotification st taskTitle onEnd s"
| "step Stop s = (Returned, stop s)"
| "step ClearCustomCache s = (Returned, clearCustomCache s)"
| "step (TimerFires h) s = timer_fires h s"
| "step UtteranceEnds s = utterance_ends s"
| "step (SourceEnds n) s = (Returned, source_ends n s)"
| "step (Settles i r) s = settles i r s"

fun run :: "event list \<Rightarrow> player \<Rightarrow> player" where
  "run [] s = s"
| "run (e # es) s = run es (snd (step e s))"

subsection \<open>Predicates on the states of the player\<close>

text \<open>
  What holds in every state the service can reach: timer handles are never reused, and a
  call is parked only once the audio context exists.
\<close>

definition wf :: "player \<Rightarrow> bool" where
  "wf s \<longleftrightarrow>
     (\<forall>e\<in>set (timers s). fst e \<le> timerSeq s) \<and>
     (suspended s \<noteq> [] \<longrightarrow> audioContext s)"

text \<open>
  The timers that keep a looping alert going: the interval of the bell and the pause timer
  of the speech chain.
\<close>

fun loop_timer :: "timer \<Rightarrow> bool" where
  "loop_timer (Interval d (RingBell v)) = True"
| "loop_timer (Timeout d (SpeakLoop t v u)) = True"
| "loop_timer _ = False"

text \<open>
  A state is quiet when no timer is armed, no utterance is queued, no call is parked and no
  sounding node loops: whatever is still heard (the tail of a tone) ends by itself.
\<close>

definition looping :: "player \<Rightarrow> bool" where
  "looping s \<longleftrightarrow> (\<exists>e\<in>set (playing s). loops (snd e))"

definition quiet :: "player \<Rightarrow> bool" where
  "quiet s \<longleftrightarrow> timers s = [] \<and> speechQueue s = [] \<and> suspended s = [] \<and> \<not> looping s"

text \<open>
  A running session whose ceiling timer has handle \<open>hc\<close> and delay \<open>dl\<close>: the ceiling timer is
  armed and recorded in \<open>stopTimeout\<close>; every other timer is a loop timer recorded in
  \<open>loopInterval\<close>; every looping source is recorded in \<open>currentSource\<close>; at most one utterance
  is queued and at most one decode is parked; and at most one of the four (a loop timer, a
  queued utterance, a parked decode, a looping source) is present.
\<close>

definition ceiling_armed :: "handle \<Rightarrow> int \<Rightarrow> player \<Rightarrow> bool" where
  "ceiling_armed hc dl s \<longleftrightarrow>
     0 < hc \<and> stopTimeout s = Some hc \<and>
     map_of (timers s) hc = Some (Timeout dl StopPlayback)"

definition timers_tracked :: "handle \<Rightarrow> player \<Rightarrow> bool" where
  "timers_tracked hc s \<longleftrightarrow>
     (\<forall>e\<in>set (timers s). fst e \<le> timerSeq s \<and>
        (fst e \<noteq> hc \<longrightarrow> 0 < fst e \<and> loopInterval s = Some (fst e) \<and> loop_timer (snd e)))"

definition sources_tracked :: "player \<Rightarrow> bool" where
  "sources_tracked s \<longleftrightarrow>
     (\<forall>e\<in>set (playing s). loops (snd e) \<longrightarrow> currentSource s = Some (fst e))"

definition speech_ok :: "player \<Rightarrow> bool" where
  "speech_ok s \<longleftrightarrow> (speechQueue s \<noteq> [] \<longrightarrow> speechAvailable s) \<and> length (speechQueue s) \<le> 1"

definition parked_ok :: "player \<Rightarrow> bool" where
  "parked_ok s \<longleftrightarrow>
     length (suspended s) \<le> 1 \<and> (\<forall>k\<in>set (suspended s). \<exists>d v l. k = AwaitDecode d v l)"

definition only_ceiling :: "handle \<Rightarrow> player \<Rightarrow> bool" where
  "only_ceiling hc s \<longleftrightarrow> (\<forall>e\<in>set (timers s). fst e = hc)"

definition one_mode :: "handle \<Rightarrow> player \<Rightarrow> bool" where
  "one_mode hc s \<longleftrightarrow>
     (speechQueue s \<noteq> [] \<or> suspended s \<noteq> [] \<or> looping s \<longrightarrow> only_ceiling hc s) \<and>
     (suspended s \<noteq> [] \<or> looping s \<longrightarrow> speechQueue s = []) \<and>
     (looping s \<longrightarrow> suspended s = [])"

definition session :: "handle \<Rightarrow> int \<Rightarrow> player \<Rightarrow> bool" where
  "session hc dl s \<longleftrightarrow>
     ceiling_armed hc dl s \<and> timers_tracked hc s \<and> sources_tracked s \<and> speech_ok s \<and>
     parked_ok s \<and> one_mode hc s"

text \<open>
  The events of an unstopped session with ceiling timer \<open>hc\<close>: everything but a call of
  \<^verbatim>\<open>playNotification\<close> or \<^verbatim>\<open>stop\<close> and the firing of the ceiling timer itself.
\<close>

fun internal :: "handle \<Rightarrow> event \<Rightarrow> bool" where
  "internal hc (TimerFires h) = (h \<noteq> hc)"
| "internal hc UtteranceEnds = True"
| "internal hc (SourceEnds n) = True"
| "internal hc (Settles i r) = True"
| "internal hc ClearCustomCache = True"
| "internal hc (PlayNotification st ttl cb) = False"
| "internal hc Stop = False"

text \<open>The session right after its ceiling timer is armed: nothing sounds yet.\<close>

definition armed :: "handle \<Rightarrow> int \<Rightarrow> player \<Rightarrow> bool" where
  "armed hc dl s \<longleftrightarrow>
     session hc dl s \<and> only_ceiling hc s \<and> speechQueue s = [] \<and> suspended s = [] \<and> \<not> looping s"

subsection \<open>Example settings and states\<close>

definition tts_once :: app_settings where
  "tts_once = DEFAULT_SETTINGS\<lparr>soundMode := Tts, audioLoop := False\<rparr>"

definition tts_loop :: app_settings where
  "tts_loop = DEFAULT_SETTINGS\<lparr>soundMode := Tts\<rparr>"

definition custom_loop :: app_settings where
  "custom_loop =
     DEFAULT_SETTINGS\<lparr>soundMode := Custom, customSoundData := Some ''data:audio/mpeg;base64,SUQz''\<rparr>"

definition speaking_loop :: player where
  "speaking_loop = run [PlayNotification tts_loop ''Stand-up'' (Some 1)] (initial True False True [])"

definition speaking_once :: player where
  "speaking_once = run [PlayNotification tts_once ''Stand-up'' (Some 1)] (initial True False True [])"

definition ringing :: player where
  "ringing = snd (step (PlayNotification DEFAULT_SETTINGS ''Stand-up'' (Some 1)) (initial True False True []))"

section \<open>Properties of the scan\<close>

subsection \<open>The rendered clock\<close>

lemma digit_char_code: "d < 10 \<Longrightarrow> (of_char (digit_char d) :: nat) = 48 + d"
  by (simp add: digit_char_def)

lemma digit_char_inj: "a < 10 \<Longrightarrow> b < 10 \<Longrightarrow> digit_char a = digit_char b \<Longrightarrow> a = b"
proof -
  assume a: "a < 10" and b: "b < 10" and e: "digit_char a = digit_char b"
  from e have "(of_char (digit_char a) :: nat) = of_char (digit_char b)" by simp
  with a b show "a = b" by (simp add: digit_char_code)
qed

lemma is_digit_digit_char: "d < 10 \<Longrightarrow> is_digit (digit_char d)"
  by (simp add: is_digit_def digit_char_code)

lemma digit_char_0: "digit_char 0 = CHR ''0''"
  by code_simp

lemma string_of_nat_1: "n < 10 \<Longrightarrow> string_of_nat n = [digit_char n]"
  by (simp add: string_of_nat.simps [of n])

lemma string_of_nat_2:
  "10 \<le> n \<Longrightarrow> n < 100 \<Longrightarrow> string_of_nat n = [digit_char (n div 10), digit_char (n mod 10)]"
  by (simp add: string_of_nat.simps [of n] string_of_nat_1)

lemma string_of_nat_3:
  "100 \<le> n \<Longrightarrow> n < 1000 \<Longrightarrow>
     string_of_nat n = [digit_char (n div 100), digit_char (n div 10 mod 10), digit_char (n mod 10)]"
  by (simp add: string_of_nat.simps [of n] string_of_nat_2 div_mult2_eq [symmetric])

lemma string_of_nat_4:
  "1000 \<le> n \<Longrightarrow> n < 10000 \<Longrightarrow>
     string_of_nat n =
       [digit_char (n div 1000), digit_char (n div 100 mod 10), digit_char (n div 10 mod 10),
        digit_char (n mod 10)]"
  by (simp add: string_of_nat.simps [of n] string_of_nat_3 div_mult2_eq [symmetric])

lemma string_of_nat_5:
  "10000 \<le> n \<Longrightarrow> n < 100000 \<Longrightarrow>
     string_of_nat n =
       [digit_char (n div 10000), digit_char (n div 1000 mod 10), digit_char (n div 100 mod 10),
        digit_char (n div 10 mod 10), digit_char (n mod 10)]"
  by (simp add: string_of_nat.simps [of n] string_of_nat_4 div_mult2_eq [symmetric])

lemma digit_char_1: "digit_char (Suc 0) = CHR ''1''"
  by code_simp

lemma pad2:
  "n < 100 \<Longrightarrow>
     padStart 2 (CHR ''0'') (string_of_nat n) = [digit_char (n div 10), digit_char (n mod 10)]"
proof (cases "n < 10")
  case True
  then show ?thesis by (simp add: padStart_def string_of_nat_1 digit_char_0)
next
  case False
  assume "n < 100"
  with False show ?thesis by (simp add: padStart_def string_of_nat_2)
qed

lemma currentTime_digits:
  "hours now < 24 \<Longrightarrow> minutes now < 60 \<Longrightarrow>
     currentTime now =
       [digit_char (hours now div 10), digit_char (hours now mod 10), CHR '':'',
        digit_char (minutes now div 10), digit_char (minutes now mod 10)]"
  by (simp add: currentTime_def pad2)

lemma two_digits_inj:
  assumes "a < 100" "b < 100"
    and "digit_char (a div 10) = digit_char (b div 10)"
    and "digit_char (a mod 10) = digit_char (b mod 10)"
  shows "a = b"
proof -
  have "a div 10 = b div 10"
    using assms by (intro digit_char_inj) auto
  moreover have "a mod 10 = b mod 10"
    using assms by (intro digit_char_inj) auto
  ultimately show ?thesis
    by (metis div_mult_mod_eq)
qed

lemma currentTime_inj:
  assumes "hours a < 24" "minutes a < 60" "hours b < 24" "minutes b < 60"
    and "currentTime a = currentTime b"
  shows "hours a = hours b \<and> minutes a = minutes b"
proof -
  from assms have
    "digit_char (hours a div 10) = digit_char (hours b div 10)"
    "digit_char (hours a mod 10) = digit_char (hours b mod 10)"
    "digit_char (minutes a div 10) = digit_char (minutes b div 10)"
    "digit_char (minutes a mod 10) = digit_char (minutes b mod 10)"
    by (simp_all add: currentTime_digits)
  with assms(1-4) show ?thesis
    by (auto intro!: two_digits_inj)
qed

lemma digit_value_digit_char: "d < 10 \<Longrightarrow> digit_value (digit_char d) = d"
  by (simp add: digit_value_def digit_char_code)

lemma two_digits_value: "10 * (n div 10) + n mod 10 = (n::nat)"
  by simp

lemma four_digits_value:
  "1000 * (n div 1000) + 100 * (n div 100 mod 10) + 10 * (n div 10 mod 10) + n mod 10 = (n::nat)"
proof -
  define a where "a = n div 10"
  define b where "b = a div 10"
  define c where "c = b div 10"
  have n: "n = 10 * a + n mod 10" and a: "a = 10 * b + a mod 10" and b: "b = 10 * c + b mod 10"
    by (simp_all add: a_def b_def c_def)
  have d: "n div 100 = b" "n div 1000 = c"
    by (simp_all add: a_def b_def c_def div_mult2_eq [symmetric])
  have "1000 * c + 100 * (b mod 10) + 10 * (a mod 10) + n mod 10 =
      10 * (10 * (10 * c + b mod 10) + a mod 10) + n mod 10"
    by simp
  also have "\<dots> = n" using n a b by simp
  finally show ?thesis by (simp add: d a_def [symmetric])
qed

lemma currentTime_is_time:
  assumes "hours now < 24" and "minutes now < 60"
  shows "is_time (currentTime now)"
proof -
  have d: "hours now div 10 < 10" "hours now mod 10 < 10" "minutes now div 10 < 10"
    "minutes now mod 10 < 10"
    using assms by simp_all
  show ?thesis
    using assms
    by (simp add: currentTime_digits is_digit_digit_char d digit_value_digit_char)
qed

lemma currentDate_digits:
  assumes "valid_clock now"
  shows "currentDate now =
     [digit_char (fullYear now div 1000), digit_char (fullYear now div 100 mod 10),
      digit_char (fullYear now div 10 mod 10), digit_char (fullYear now mod 10), CHR ''-'',
      digit_char ((month now + 1) div 10), digit_char ((month now + 1) mod 10), CHR ''-'',
      digit_char (dayOfMonth now div 10), digit_char (dayOfMonth now mod 10)]"
proof -
  from assms have y: "1000 \<le> fullYear now" "fullYear now < 10000"
    and m: "month now + 1 < 100"
    and d: "dayOfMonth now \<le> days_in_month (fullYear now) (month now + 1)"
    by (simp_all add: valid_clock_def)
  have "days_in_month (fullYear now) (month now + 1) \<le> 31"
    by (simp add: days_in_month_def)
  with d have "dayOfMonth now < 100" by simp
  with m show ?thesis
    by (simp add: currentDate_def pad2 string_of_nat_4 [OF y])
qed

lemma currentDate_is_date:
  assumes "valid_clock now"
  shows "is_date (currentDate now)"
proof -
  let ?y = "fullYear now" and ?m = "month now + 1" and ?d = "dayOfMonth now"
  from assms have r: "?y < 10000" "?m \<le> 12" "1 \<le> ?d" "?d \<le> days_in_month ?y ?m"
    by (simp_all add: valid_clock_def)
  have "days_in_month ?y ?m \<le> 31" by (simp add: days_in_month_def)
  with r(4) have d100: "?d < 100" by simp
  have lt: "?y div 1000 < 10" "?y div 100 mod 10 < 10" "?y div 10 mod 10 < 10" "?y mod 10 < 10"
    "?m div 10 < 10" "?m mod 10 < 10" "?d div 10 < 10" "?d mod 10 < 10"
    using r(1,2) d100 by simp_all
  have v: "1000 * digit_value (digit_char (?y div 1000)) +
      100 * digit_value (digit_char (?y div 100 mod 10)) +
      10 * digit_value (digit_char (?y div 10 mod 10)) + digit_value (digit_char (?y mod 10)) = ?y"
    "10 * digit_value (digit_char (?m div 10)) + digit_value (digit_char (?m mod 10)) = ?m"
    "10 * digit_value (digit_char (?d div 10)) + digit_value (digit_char (?d mod 10)) = ?d"
    using four_digits_value [of ?y] two_digits_value [of ?m] two_digits_value [of ?d]
    by (simp_all only: digit_value_digit_char [OF lt(1)] digit_value_digit_char [OF lt(2)]
        digit_value_digit_char [OF lt(3)] digit_value_digit_char [OF lt(4)]
        digit_value_digit_char [OF lt(5)] digit_value_digit_char [OF lt(6)]
        digit_value_digit_char [OF lt(7)] digit_value_digit_char [OF lt(8)])
  show ?thesis
    unfolding currentDate_digits [OF assms] is_date.simps v
    using r lt by (simp add: is_digit_digit_char)
qed

subsection \<open>What one tick computes\<close>

lemma scan_callback_not_due:
  "\<not> newly_due cd ct t \<Longrightarrow> scan_callback st api cd ct t h effs = (Inr (t, h), effs)"
  by (simp add: scan_callback_def)

lemma map_tasks_none_due:
  "\<forall>t\<in>set ts. \<not> newly_due cd ct t \<Longrightarrow> map_tasks st api cd ct ts h effs = (Inr (ts, h), effs)"
  by (induction ts arbitrary: h effs) (simp_all add: scan_callback_not_due)

lemma map_tasks_present:
  "map_tasks st (NotificationPermission p) cd ct ts h effs =
     (Inr (map (\<lambda>t. if newly_due cd ct t
                     then t\<lparr>notified := Some True,
                            completed := (if autoComplete st then True else completed t)\<rparr>
                     else t) ts,
           h \<or> (\<exists>t\<in>set ts. newly_due cd ct t)),
      effs @ concat (map (\<lambda>t. if newly_due cd ct t
                     then [SetIsAlarmRinging True, CallPlayNotification st (title t)] @
                          (if p = Granted then [NewNotification (''Task Due: '' @ title t)] else [])
                     else []) ts))"
proof (induction ts arbitrary: h effs)
  case Nil
  show ?case by simp
next
  case (Cons t ts)
  show ?case
  proof (cases "newly_due cd ct t")
    case True
    then show ?thesis
      by (simp add: scan_callback_def Cons.IH Let_def)
  next
    case False
    then show ?thesis
      by (simp add: scan_callback_def Cons.IH)
  qed
qed

lemma map_tasks_absent_due:
  "\<exists>t\<in>set ts. newly_due cd ct t \<Longrightarrow>
     fst (map_tasks st NotificationAbsent cd ct ts h effs) = Inl ReferenceError"
proof (induction ts arbitrary: h effs)
  case Nil
  then show ?case by simp
next
  case (Cons t ts)
  show ?case
  proof (cases "newly_due cd ct t")
    case True
    then show ?thesis by (simp add: scan_callback_def Let_def)
  next
    case False
    with Cons.prems have "\<exists>t\<in>set ts. newly_due cd ct t" by simp
    from Cons.IH [OF this, of h effs]
    obtain e where "map_tasks st NotificationAbsent cd ct ts h effs = (Inl ReferenceError, e)"
      by (cases "map_tasks st NotificationAbsent cd ct ts h effs") auto
    with False show ?thesis
      by (simp add: scan_callback_not_due)
  qed
qed

lemma updater_none_due:
  "\<forall>t\<in>set ts. \<not> newly_due (currentDate now) (currentTime now) t \<Longrightarrow>
     updater st api now ts = (Inr CurrentTasks, [])"
  by (simp add: updater_def map_tasks_none_due)

lemma updater_present:
  "updater st (NotificationPermission p) now ts =
     (Inr (if \<exists>t\<in>set ts. newly_due (currentDate now) (currentTime now) t
           then UpdatedTasks
             (map (\<lambda>t. if newly_due (currentDate now) (currentTime now) t
                     then t\<lparr>notified := Some True,
                            completed := (if autoComplete st then True else completed t)\<rparr>
                     else t) ts)
           else CurrentTasks),
      concat (map (\<lambda>t. if newly_due (currentDate now) (currentTime now) t
                     then [SetIsAlarmRinging True, CallPlayNotification st (title t)] @
                          (if p = Granted then [NewNotification (''Task Due: '' @ title t)] else [])
                     else []) ts))"
  by (simp add: updater_def map_tasks_present)

lemma updater_absent:
  "fst (updater st NotificationAbsent now ts) =
     (if \<exists>t\<in>set ts. newly_due (currentDate now) (currentTime now) t
      then Inl ReferenceError else Inr CurrentTasks)"
proof (cases "\<exists>t\<in>set ts. newly_due (currentDate now) (currentTime now) t")
  case True
  from map_tasks_absent_due [OF True, of st False "[]"]
  obtain e where "map_tasks st NotificationAbsent (currentDate now) (currentTime now) ts False [] =
      (Inl ReferenceError, e)"
    by (cases "map_tasks st NotificationAbsent (currentDate now) (currentTime now) ts False []") auto
  with True show ?thesis
    by (simp add: updater_def)
next
  case False
  then show ?thesis by (simp add: updater_none_due)
qed

lemma map_unmarked:
  "\<forall>t\<in>set ts. \<not> P t \<Longrightarrow> map (\<lambda>t. if P t then f t else t) ts = ts"
  by (induction ts) simp_all

lemma tick_present:
  "tick st (NotificationPermission p) now ts =
     (map (\<lambda>t. if newly_due (currentDate now) (currentTime now) t
                     then t\<lparr>notified := Some True,
                            completed := (if autoComplete st then True else completed t)\<rparr>
                     else t) ts,
      concat (map (\<lambda>t. if newly_due (currentDate now) (currentTime now) t
                     then [SetIsAlarmRinging True, CallPlayNotification st (title t)] @
                          (if p = Granted then [NewNotification (''Task Due: '' @ title t)] else [])
                     else []) ts))"
proof (cases "\<exists>t\<in>set ts. newly_due (currentDate now) (currentTime now) t")
  case True
  then show ?thesis by (simp add: tick_def updater_present)
next
  case False
  then have "\<forall>t\<in>set ts. \<not> newly_due (currentDate now) (currentTime now) t" by simp
  from map_unmarked [OF this] False show ?thesis
    by (simp add: tick_def updater_present)
qed

lemma tick_absent_tasks: "fst (tick st NotificationAbsent now ts) = ts"
proof -
  obtain r effs where u: "updater st NotificationAbsent now ts = (r, effs)"
    by (cases "updater st NotificationAbsent now ts") auto
  with updater_absent [of st now ts] have "r = Inl ReferenceError \<or> r = Inr CurrentTasks"
    by (auto split: if_splits)
  with u show ?thesis by (auto simp: tick_def)
qed

lemma tick_none_due:
  "\<forall>t\<in>set ts. \<not> newly_due (currentDate now) (currentTime now) t \<Longrightarrow>
     tick st api now ts = (ts, [])"
  by (simp add: tick_def updater_none_due)

lemma tick_single:
  "tick st api now [t] =
     (if newly_due (currentDate now) (currentTime now) t then
        (case api of
           NotificationAbsent \<Rightarrow>
             ([t], [SetIsAlarmRinging True, CallPlayNotification st (title t)])
         | NotificationPermission p \<Rightarrow>
             ([t\<lparr>notified := Some True,
                 completed := (if autoComplete st then True else completed t)\<rparr>],
              [SetIsAlarmRinging True, CallPlayNotification st (title t)] @
              (if p = Granted then [NewNotification (''Task Due: '' @ title t)] else [])))
      else ([t], []))"
  by (simp add: tick_def updater_def scan_callback_def Let_def split: notification_api.splits)

lemma tick_length: "length (fst (tick st api now ts)) = length ts"
  by (cases api) (simp_all add: tick_absent_tasks tick_present)

lemma updater_updated:
  assumes "fst (updater st api now ts) = Inr (UpdatedTasks us)"
  shows "(\<exists>t\<in>set ts. newly_due (currentDate now) (currentTime now) t) \<and>
         api \<noteq> NotificationAbsent \<and>
         us = map (\<lambda>t. if newly_due (currentDate now) (currentTime now) t
                     then t\<lparr>notified := Some True,
                            completed := (if autoComplete st then True else completed t)\<rparr>
                     else t) ts \<and>
         fst (tick st api now ts) = us"
proof (cases api)
  case NotificationAbsent
  with assms updater_absent [of st now ts] show ?thesis
    by (simp split: if_splits)
next
  case (NotificationPermission p)
  with assms show ?thesis
    by (simp add: updater_present tick_present split: if_splits)
qed

lemma updater_current:
  "fst (updater st api now ts) = Inr CurrentTasks \<longleftrightarrow>
     (\<forall>t\<in>set ts. \<not> newly_due (currentDate now) (currentTime now) t)"
  by (cases api) (simp_all add: updater_absent updater_present)

lemma tick_nth:
  "i < length ts \<Longrightarrow>
     fst (tick st api now ts) ! i =
       (if newly_due (currentDate now) (currentTime now) (ts ! i) \<and> api \<noteq> NotificationAbsent
        then (ts ! i)\<lparr>notified := Some True,
                completed := (if autoComplete st then True else completed (ts ! i))\<rparr>
        else ts ! i)"
  by (cases api) (simp_all add: tick_absent_tasks tick_present)

lemma tick_fields:
  "map (\<lambda>t. (task_id t, title t, time t, date t, priority t, createdAt t))
     (fst (tick st api now ts)) =
   map (\<lambda>t. (task_id t, title t, time t, date t, priority t, createdAt t)) ts"
  by (cases api) (simp_all add: tick_absent_tasks tick_present comp_def)

subsection \<open>The scenario\<close>

lemma scenario_date: "currentDate scenario_now = ''2024-01-15''"
  by code_simp

lemma scenario_time: "currentTime scenario_now = ''09:00''"
  by code_simp

lemma scenario_due: "newly_due (currentDate scenario_now) (currentTime scenario_now) scenario_task"
  unfolding scenario_date scenario_time by (simp add: newly_due_def scenario_task_def)

lemma scenario_valid: "valid_clock scenario_now"
  by (simp add: valid_clock_def scenario_now_def days_in_month_def)

lemma far_date: "currentDate far_now = ''10000-01-01''"
  by (simp add: currentDate_def far_now_def string_of_nat_5 pad2 digit_char_0 digit_char_1)

lemma far_time: "currentTime far_now = ''09:00''"
  by code_simp

subsection \<open>Alerts of one task over successive ticks\<close>

lemma tick_notified_kept: "truthy (notified t) \<Longrightarrow> tick st api now [t] = ([t], [])"
  by (simp add: tick_single newly_due_def)

lemma run_ticks_notified: "truthy (notified t) \<Longrightarrow> run_ticks ticks [t] = ([t], [])"
  by (induction ticks) (auto simp: tick_notified_kept)

text \<open>
  Where the \<^verbatim>\<open>Notification\<close> global exists on every tick, a task is alerted at most once.
\<close>

lemma alerts_at_most_once_with_notifications:
  "\<forall>x\<in>set ticks. fst (snd x) \<noteq> NotificationAbsent \<Longrightarrow>
     length (filter is_alert (snd (run_ticks ticks [t]))) \<le> 1"
proof (induction ticks arbitrary: t)
  case Nil
  then show ?case by simp
next
  case (Cons x ticks)
  obtain st api now where x: "x = (st, api, now)" by (cases x) auto
  with Cons.prems obtain p where api: "api = NotificationPermission p"
    by (cases api) auto
  from Cons.prems have rest: "\<forall>x\<in>set ticks. fst (snd x) \<noteq> NotificationAbsent" by simp
  show ?case
  proof (cases "newly_due (currentDate now) (currentTime now) t")
    case True
    let ?t' = "t\<lparr>notified := Some True, completed := (if autoComplete st then True else completed t)\<rparr>"
    have "run_ticks ticks [?t'] = ([?t'], [])"
      by (rule run_ticks_notified) simp
    with True x api show ?thesis by (simp add: tick_single)
  next
    case False
    with x Cons.IH [OF rest, of t] show ?thesis
      by (simp add: tick_single split: prod.splits)
  qed
qed

text \<open>
  Claim C1.  The claim fails on the code.  On a platform without the \<^verbatim>\<open>Notification\<close>
  global the updater throws at \<^verbatim>\<open>Notification.permission\<close>, after \<^verbatim>\<open>playNotification\<close> was
  called and before the task is returned with \<open>notified = true\<close>: the collection stays as
  it was, and the next tick of the same minute alerts the same task again.
\<close>

theorem alert_repeats_without_notification_global:
  "fst (updater DEFAULT_SETTINGS NotificationAbsent scenario_now [scenario_task]) =
     Inl ReferenceError \<and>
   run_ticks [(DEFAULT_SETTINGS, NotificationAbsent, scenario_now),
              (DEFAULT_SETTINGS, NotificationAbsent, scenario_now)] [scenario_task] =
     ([scenario_task],
      [SetIsAlarmRinging True, CallPlayNotification DEFAULT_SETTINGS ''Stand-up'',
       SetIsAlarmRinging True, CallPlayNotification DEFAULT_SETTINGS ''Stand-up''])"
proof -
  have t: "title scenario_task = ''Stand-up''" by (simp add: scenario_task_def)
  from scenario_due show ?thesis
    by (simp add: updater_absent tick_single t)
qed

text \<open>
  Claim C3.  A tick alerts a task only when the task's date and time equal the rendered
  current date and current minute.  A task whose time is the current minute of one clock
  is left alone by a tick at any other hour or minute of the day, in particular by the tick
  one minute earlier or one minute later.  Both hold whatever the platform's notification
  state.
\<close>

theorem due_only_at_exact_minute:
  assumes "hours now < 24" and "minutes now < 60"
    and "hours now' < 24" and "minutes now' < 60"
  shows "(snd (tick st api now [t]) \<noteq> [] \<longrightarrow>
            date t = currentDate now \<and> time t = currentTime now) \<and>
         (time t = currentTime now \<and> (hours now' \<noteq> hours now \<or> minutes now' \<noteq> minutes now) \<longrightarrow>
            tick st api now' [t] = ([t], []))"
proof -
  have only: "snd (tick st api now [t]) \<noteq> [] \<longrightarrow>
      date t = currentDate now \<and> time t = currentTime now"
    by (simp add: tick_single newly_due_def)
  have other: "tick st api now' [t] = ([t], [])"
    if same: "time t = currentTime now"
      and diff: "hours now' \<noteq> hours now \<or> minutes now' \<noteq> minutes now"
  proof -
    have "currentTime now' \<noteq> currentTime now"
      using currentTime_inj [OF assms(3,4,1,2)] diff by auto
    with same show ?thesis by (simp add: tick_single newly_due_def)
  qed
  from only other show ?thesis by blast
qed

theorem due_only_at_exact_minute_witness:
  "snd (tick DEFAULT_SETTINGS (NotificationPermission Granted) scenario_now [scenario_task]) \<noteq> [] \<and>
   date scenario_task = currentDate scenario_now \<and>
   time scenario_task = currentTime scenario_now \<and>
   tick DEFAULT_SETTINGS (NotificationPermission Granted) (scenario_now\<lparr>minutes := 1\<rparr>)
     [scenario_task] = ([scenario_task], []) \<and>
   tick DEFAULT_SETTINGS (NotificationPermission Granted) (scenario_now\<lparr>hours := 8, minutes := 59\<rparr>)
     [scenario_task] = ([scenario_task], [])"
proof -
  let ?api = "NotificationPermission Granted"
  have fired: "snd (tick DEFAULT_SETTINGS ?api scenario_now [scenario_task]) \<noteq> []"
    using scenario_due by (simp add: tick_single)
  have t: "time scenario_task = currentTime scenario_now"
    by (simp add: scenario_time scenario_task_def)
  have later: "minutes (scenario_now\<lparr>minutes := 1\<rparr>) \<noteq> minutes scenario_now"
    and earlier: "hours (scenario_now\<lparr>hours := 8, minutes := 59\<rparr>) \<noteq> hours scenario_now"
    by (simp_all add: scenario_now_def)
  have r: "hours scenario_now < 24" "minutes scenario_now < 60"
    "hours (scenario_now\<lparr>minutes := 1\<rparr>) < 24" "minutes (scenario_now\<lparr>minutes := 1\<rparr>) < 60"
    "hours (scenario_now\<lparr>hours := 8, minutes := 59\<rparr>) < 24"
    "minutes (scenario_now\<lparr>hours := 8, minutes := 59\<rparr>) < 60"
    by (simp_all add: scenario_now_def)
  from fired t later earlier
    due_only_at_exact_minute [OF r(1,2,3,4), of DEFAULT_SETTINGS ?api scenario_task]
    due_only_at_exact_minute [OF r(1,2,5,6), of DEFAULT_SETTINGS ?api scenario_task]
  show ?thesis by blast
qed

text \<open>
  Claim C8, as stated, fails: the tick has no parsing step and compares the strings.  In
  the year 10000 the rendered date has five digits of year, and a task whose date is the
  same text, which is not of the form YYYY-MM-DD, is matched and marked.
\<close>

theorem malformed_date_matched_in_year_10000:
  "\<not> is_date (date far_task) \<and>
   tick DEFAULT_SETTINGS (NotificationPermission Granted) far_now [far_task] =
     ([far_task\<lparr>notified := Some True\<rparr>],
      [SetIsAlarmRinging True, CallPlayNotification DEFAULT_SETTINGS ''Review'',
       NewNotification ''Task Due: Review''])"
proof -
  have d: "newly_due (currentDate far_now) (currentTime far_now) far_task"
    unfolding far_date far_time by (simp add: newly_due_def far_task_def)
  have f: "title far_task = ''Review''" "\<not> completed far_task" "\<not> is_date (date far_task)"
    by (simp_all add: far_task_def)
  from d f show ?thesis
    by (simp add: tick_single DEFAULT_SETTINGS_def)
qed

text \<open>
  Claim C8, amended.  Let the clock show a calendar date of a four-digit year, and let a
  task of the collection have a date that is not a calendar date written YYYY-MM-DD or a
  time that is not a time of day written HH:mm.  Then the task is not newly due; the
  callback returns it unchanged, with the flag and the effects as they were, and raises
  nothing, whatever the platform's notification state; a tick on the task alone returns
  \<open>currentTasks\<close> with no effect; where the \<^verbatim>\<open>Notification\<close> global exists the updater returns
  normally on the whole collection; and after the tick the collection has the same length
  and the same task at that position.
\<close>

theorem malformed_task_skipped:
  assumes "valid_clock now" and "i < length ts"
    and "\<not> is_date (date (ts ! i)) \<or> \<not> is_time (time (ts ! i))"
  shows "\<not> newly_due (currentDate now) (currentTime now) (ts ! i) \<and>
         scan_callback st api (currentDate now) (currentTime now) (ts ! i) h effs =
           (Inr (ts ! i, h), effs) \<and>
         updater st api now [ts ! i] = (Inr CurrentTasks, []) \<and>
         (\<exists>r. fst (updater st (NotificationPermission p) now ts) = Inr r) \<and>
         length (fst (tick st api now ts)) = length ts \<and>
         fst (tick st api now ts) ! i = ts ! i"
proof -
  from assms(1) have "hours now < 24" and "minutes now < 60"
    by (simp_all add: valid_clock_def)
  then have "is_time (currentTime now)" by (rule currentTime_is_time)
  moreover from assms(1) have "is_date (currentDate now)" by (rule currentDate_is_date)
  ultimately have nd: "\<not> newly_due (currentDate now) (currentTime now) (ts ! i)"
    using assms(3) by (auto simp: newly_due_def)
  have ret: "\<exists>r. fst (updater st (NotificationPermission p) now ts) = Inr r"
    by (simp add: updater_present)
  from nd assms(2) ret show ?thesis
    by (simp add: scan_callback_not_due updater_none_due tick_length tick_nth)
qed

theorem malformed_task_skipped_witness:
  "valid_clock scenario_now \<and>
   \<not> is_time (time malformed_task) \<and> \<not> is_date (date impossible_task) \<and>
   date malformed_task = currentDate scenario_now \<and>
   time impossible_task = currentTime scenario_now \<and>
   scan_callback DEFAULT_SETTINGS NotificationAbsent (currentDate scenario_now)
     (currentTime scenario_now) malformed_task True [] = (Inr (malformed_task, True), []) \<and>
   updater DEFAULT_SETTINGS NotificationAbsent scenario_now [impossible_task] =
     (Inr CurrentTasks, []) \<and>
   fst (tick DEFAULT_SETTINGS (NotificationPermission Granted) scenario_now
     [scenario_task, malformed_task, impossible_task]) ! 1 = malformed_task \<and>
   fst (tick DEFAULT_SETTINGS (NotificationPermission Granted) scenario_now
     [scenario_task, malformed_task, impossible_task]) ! 2 = impossible_task"
proof -
  let ?ts = "[scenario_task, malformed_task, impossible_task]"
  have t: "\<not> is_time (time malformed_task)"
    by (simp add: malformed_task_def)
  have d: "\<not> is_date (date impossible_task)"
    by (simp add: impossible_task_def is_digit_def digit_value_def days_in_month_def
        leap_year_def)
  have m1: "\<not> is_date (date (?ts ! 1)) \<or> \<not> is_time (time (?ts ! 1))"
    and m2: "\<not> is_date (date (?ts ! 2)) \<or> \<not> is_time (time (?ts ! 2))"
    using t d by simp_all
  have e: "date malformed_task = currentDate scenario_now"
    "time impossible_task = currentTime scenario_now"
    by (simp_all add: malformed_task_def impossible_task_def scenario_date scenario_time)
  have l: "1 < length ?ts" "2 < length ?ts" by simp_all
  from malformed_task_skipped [OF scenario_valid l(1) m1,
      of DEFAULT_SETTINGS NotificationAbsent True "[]" Granted]
    malformed_task_skipped [OF scenario_valid l(2) m2,
      of DEFAULT_SETTINGS NotificationAbsent True "[]" Granted]
    malformed_task_skipped [OF scenario_valid l(1) m1,
      of DEFAULT_SETTINGS "NotificationPermission Granted" True "[]" Granted]
    malformed_task_skipped [OF scenario_valid l(2) m2,
      of DEFAULT_SETTINGS "NotificationPermission Granted" True "[]" Granted]
    t d e scenario_valid
  show ?thesis by simp
qed



text \<open>
  Claim C10.  The updater returns \<open>currentTasks\<close> itself, and not the array \<open>updatedTasks\<close>
  that \<open>map\<close> built, exactly when no task is newly due, and then no effect is issued.  When
  a task is newly due and the \<^verbatim>\<open>Notification\<close> global exists it returns \<open>updatedTasks\<close>.
  Whenever it returns \<open>updatedTasks\<close>, a task was newly due and the array is the input with
  the newly due tasks marked.  In every case the collection after the tick has the same
  length, the same \<open>id\<close>, \<open>title\<close>, \<open>time\<close>, \<open>date\<close>, \<open>priority\<close> and \<open>createdAt\<close> at every position,
  and differs from the input only in \<open>notified\<close> and \<open>completed\<close> of the newly due tasks.
\<close>

theorem tick_frame:
  "(fst (updater st api now ts) = Inr CurrentTasks \<longleftrightarrow>
      (\<forall>t\<in>set ts. \<not> newly_due (currentDate now) (currentTime now) t)) \<and>
   ((\<forall>t\<in>set ts. \<not> newly_due (currentDate now) (currentTime now) t) \<longrightarrow>
      updater st api now ts = (Inr CurrentTasks, []) \<and> tick st api now ts = (ts, [])) \<and>
   ((\<exists>t\<in>set ts. newly_due (currentDate now) (currentTime now) t) \<longrightarrow>
      fst (updater st (NotificationPermission p) now ts) =
        Inr (UpdatedTasks (fst (tick st (NotificationPermission p) now ts)))) \<and>
   (fst (updater st api now ts) = Inr (UpdatedTasks us) \<longrightarrow>
      (\<exists>t\<in>set ts. newly_due (currentDate now) (currentTime now) t) \<and>
      us = fst (tick st api now ts)) \<and>
   length (fst (tick st api now ts)) = length ts \<and>
   map (\<lambda>t. (task_id t, title t, time t, date t, priority t, createdAt t))
     (fst (tick st api now ts)) =
   map (\<lambda>t. (task_id t, title t, time t, date t, priority t, createdAt t)) ts \<and>
   (\<forall>i<length ts.
      fst (tick st api now ts) ! i =
        (if newly_due (currentDate now) (currentTime now) (ts ! i) \<and> api \<noteq> NotificationAbsent
         then (ts ! i)\<lparr>notified := Some True,
                 completed := (if autoComplete st then True else completed (ts ! i))\<rparr>
         else ts ! i))"
proof -
  let ?due = "newly_due (currentDate now) (currentTime now)"
  have a: "fst (updater st api now ts) = Inr CurrentTasks \<longleftrightarrow> (\<forall>t\<in>set ts. \<not> ?due t)"
    by (rule updater_current)
  have b: "(\<forall>t\<in>set ts. \<not> ?due t) \<longrightarrow>
      updater st api now ts = (Inr CurrentTasks, []) \<and> tick st api now ts = (ts, [])"
    by (simp add: updater_none_due tick_none_due)
  have c: "(\<exists>t\<in>set ts. ?due t) \<longrightarrow>
      fst (updater st (NotificationPermission p) now ts) =
        Inr (UpdatedTasks (fst (tick st (NotificationPermission p) now ts)))"
    by (simp add: updater_present tick_present)
  have d: "fst (updater st api now ts) = Inr (UpdatedTasks us) \<longrightarrow>
      (\<exists>t\<in>set ts. ?due t) \<and> us = fst (tick st api now ts)"
  proof
    assume "fst (updater st api now ts) = Inr (UpdatedTasks us)"
    from updater_updated [OF this]
    show "(\<exists>t\<in>set ts. ?due t) \<and> us = fst (tick st api now ts)" by simp
  qed
  have e: "length (fst (tick st api now ts)) = length ts"
    by (rule tick_length)
  have f: "\<forall>i<length ts.
      fst (tick st api now ts) ! i =
        (if ?due (ts ! i) \<and> api \<noteq> NotificationAbsent
         then (ts ! i)\<lparr>notified := Some True,
                 completed := (if autoComplete st then True else completed (ts ! i))\<rparr>
         else ts ! i)"
    by (simp add: tick_nth)
  from a b c d e tick_fields [of st api now ts] f show ?thesis
    by blast
qed

theorem tick_frame_witness:
  "\<not> newly_due (currentDate scenario_now) (currentTime scenario_now) later_task \<and>
   \<not> newly_due (currentDate scenario_now) (currentTime scenario_now) malformed_task \<and>
   updater DEFAULT_SETTINGS (NotificationPermission Granted) scenario_now
     [later_task, malformed_task] = (Inr CurrentTasks, []) \<and>
   tick DEFAULT_SETTINGS (NotificationPermission Granted) scenario_now
     [later_task, malformed_task] = ([later_task, malformed_task], []) \<and>
   fst (updater DEFAULT_SETTINGS (NotificationPermission Granted) scenario_now
     [later_task, scenario_task, malformed_task]) =
     Inr (UpdatedTasks [later_task, scenario_task\<lparr>notified := Some True\<rparr>, malformed_task]) \<and>
   fst (tick DEFAULT_SETTINGS (NotificationPermission Granted) scenario_now
     [later_task, scenario_task, malformed_task]) =
     [later_task, scenario_task\<lparr>notified := Some True\<rparr>, malformed_task]"
proof -
  let ?api = "NotificationPermission Granted"
  have none: "\<forall>t\<in>set [later_task, malformed_task].
      \<not> newly_due (currentDate scenario_now) (currentTime scenario_now) t"
    by (simp add: newly_due_def scenario_time later_task_def malformed_task_def)
  have nd: "\<not> newly_due (currentDate scenario_now) (currentTime scenario_now) later_task"
    "\<not> newly_due (currentDate scenario_now) (currentTime scenario_now) malformed_task"
    using none by simp_all
  have c: "\<not> completed scenario_task" "\<not> autoComplete DEFAULT_SETTINGS"
    by (simp_all add: scenario_task_def DEFAULT_SETTINGS_def)
  let ?ts = "[later_task, scenario_task, malformed_task]"
  let ?r = "fst (tick DEFAULT_SETTINGS ?api scenario_now ?ts)"
  note fr = tick_frame [of DEFAULT_SETTINGS ?api scenario_now ?ts Granted]
  have some: "\<exists>t\<in>set ?ts. newly_due (currentDate scenario_now) (currentTime scenario_now) t"
    using scenario_due by simp
  from fr have len: "length ?r = 3" by simp
  from fr have each: "\<forall>i<length ?ts. ?r ! i =
        (if newly_due (currentDate scenario_now) (currentTime scenario_now) (?ts ! i) \<and>
            ?api \<noteq> NotificationAbsent
         then (?ts ! i)\<lparr>notified := Some True,
                 completed := (if autoComplete DEFAULT_SETTINGS then True else completed (?ts ! i))\<rparr>
         else ?ts ! i)"
    by blast
  from fr some have upd: "fst (updater DEFAULT_SETTINGS ?api scenario_now ?ts) =
      Inr (UpdatedTasks ?r)"
    by blast
  have r0: "?r ! 0 = later_task"
    using each [rule_format, of 0] nd by simp
  have r1: "?r ! 1 = scenario_task\<lparr>notified := Some True\<rparr>"
    using each [rule_format, of 1] scenario_due c by simp
  have r2: "?r ! 2 = malformed_task"
    using each [rule_format, of 2] nd by simp
  have r: "?r = [later_task, scenario_task\<lparr>notified := Some True\<rparr>, malformed_task]"
  proof (rule nth_equalityI)
    show "length ?r = length [later_task, scenario_task\<lparr>notified := Some True\<rparr>, malformed_task]"
      using len by simp
  next
    fix i assume "i < length ?r"
    with len have "i = 0 \<or> i = 1 \<or> i = 2" by auto
    with r0 r1 r2
    show "?r ! i = [later_task, scenario_task\<lparr>notified := Some True\<rparr>, malformed_task] ! i"
      by auto
  qed
  from r upd have u: "fst (updater DEFAULT_SETTINGS ?api scenario_now ?ts) =
      Inr (UpdatedTasks [later_task, scenario_task\<lparr>notified := Some True\<rparr>, malformed_task])"
    by simp
  from none nd r u
    tick_frame [of DEFAULT_SETTINGS ?api scenario_now "[later_task, malformed_task]" Granted]
  show ?thesis by blast
qed

section \<open>Properties of the alert player\<close>

lemmas stop_defs =
  stop_def stop_sources_def stop_tts_def clear_stopTimeout_def clear_loopInterval_def
  trigger_callback_def

lemma wf_initial: "wf (initial c su sp vs)"
  by (simp add: wf_def initial_def)

lemma wf_stop_steps:
  "wf s \<Longrightarrow> wf (stop_sources s)"
  "wf s \<Longrightarrow> wf (stop_tts s)"
  "wf s \<Longrightarrow> wf (clear_stopTimeout s)"
  "wf s \<Longrightarrow> wf (clear_loopInterval s)"
  "wf s \<Longrightarrow> wf (trigger_callback s)"
  by (simp_all add: wf_def stop_sources_def stop_tts_def clear_stopTimeout_def
      clear_loopInterval_def trigger_callback_def clearTimer_def split: option.splits)

lemma wf_stop: "wf s \<Longrightarrow> wf (stop s)"
  by (simp add: stop_def wf_stop_steps)

lemma wf_speakText: "wf s \<Longrightarrow> wf (speakText text vol uri onEnd s)"
  by (auto simp: wf_def speakText_def Let_def)

lemma wf_playBellSound: "wf s \<Longrightarrow> wf (snd (playBellSound vol s))"
  by (auto simp: wf_def playBellSound_def getContext_def start_node_def Let_def split: option.splits)

lemma wf_playCustom: "wf s \<Longrightarrow> wf (snd (playCustom d vol loop s))"
  by (auto simp: wf_def playCustom_def playBellSound_def getContext_def start_node_def Let_def
      split: option.splits)

lemma wf_setTimer: "wf s \<Longrightarrow> wf (snd (setTimer t s))"
  by (auto simp: wf_def setTimer_def Let_def)

lemma wf_field_updates [simp]:
  "wf (s\<lparr>stopTimeout := a\<rparr>) = wf s"
  "wf (s\<lparr>loopInterval := b\<rparr>) = wf s"
  "wf (s\<lparr>onPlaybackEnd := c\<rparr>) = wf s"
  "wf (s\<lparr>invoked := d\<rparr>) = wf s"
  "wf (s\<lparr>contextSuspended := e\<rparr>) = wf s"
  "wf (s\<lparr>speechQueue := f\<rparr>) = wf s"
  "wf (s\<lparr>playing := g\<rparr>) = wf s"
  "wf (s\<lparr>customAudioBuffer := h\<rparr>) = wf s"
  by (simp_all add: wf_def)

lemma wf_bell_branch: "wf s \<Longrightarrow> wf (snd (bell_branch st s))"
proof -
  assume w: "wf s"
  obtain out s1 where b: "playBellSound (volume st) s = (out, s1)"
    by (cases "playBellSound (volume st) s") auto
  with wf_playBellSound [OF w, of "volume st"] have w1: "wf s1" by simp
  obtain h s2 where t: "setTimer (Interval 1000 (RingBell (volume st))) s1 = (h, s2)"
    by (cases "setTimer (Interval 1000 (RingBell (volume st))) s1") auto
  with wf_setTimer [OF w1, of "Interval 1000 (RingBell (volume st))"] have "wf s2" by simp
  with b t w1 show ?thesis
    by (cases out) (simp_all add: bell_branch_def)
qed

lemma wf_playNotification_rest: "wf s \<Longrightarrow> wf (snd (playNotification_rest st ttl s))"
proof -
  assume w: "wf s"
  define s1 where "s1 = (if audioDuration st > 0 then
                  (case setTimer (Timeout (audioDuration st * 1000) StopPlayback) s of
                     (h, s') \<Rightarrow> s'\<lparr>stopTimeout := Some h\<rparr>)
                else s)"
  have w1: "wf s1"
    using w wf_setTimer [OF w, of "Timeout (audioDuration st * 1000) StopPlayback"]
    by (auto simp: s1_def split: prod.splits)
  show ?thesis
    unfolding playNotification_rest_def s1_def [symmetric] Let_def
    using w1 by (auto simp: speakLoop_def wf_speakText wf_playCustom wf_bell_branch split: option.splits)
qed

lemma wf_suspend_resume:
  "wf s \<Longrightarrow> audioContext s \<Longrightarrow> wf (s\<lparr>suspended := suspended s @ [AwaitResume st ttl]\<rparr>)"
  by (auto simp: wf_def)

lemma wf_playNotification: "wf s \<Longrightarrow> wf (snd (playNotification st ttl cb s))"
proof -
  assume "wf s"
  then have w: "wf ((stop s)\<lparr>onPlaybackEnd := cb\<rparr>)" by (simp add: wf_stop)
  show ?thesis
    unfolding playNotification_def Let_def
    using wf_playNotification_rest [OF w] wf_suspend_resume [OF w] by auto
qed

lemma wf_unpark:
  "wf s \<Longrightarrow> wf (s\<lparr>suspended := take i (suspended s) @ drop (Suc i) (suspended s)\<rparr>)"
  by (cases "suspended s = []") (auto simp: wf_def)

lemma wf_start_node: "wf s \<Longrightarrow> wf (start_node k s)"
  by (auto simp: wf_def start_node_def Let_def)

lemma wf_settles: "wf s \<Longrightarrow> wf (snd (settles i r s))"
  unfolding settles_def Let_def
  by (auto intro!: wf_playNotification_rest wf_playBellSound wf_start_node
      simp: wf_unpark split: suspended_call.splits settled.splits)

lemma wf_clearTimer: "wf s \<Longrightarrow> wf (clearTimer h s)"
  by (auto simp: wf_def clearTimer_def)

lemma wf_run_timer: "wf s \<Longrightarrow> wf (snd (run_timer cb s))"
  by (cases cb) (simp_all add: wf_stop speakLoop_def wf_speakText wf_playBellSound)

lemma wf_timer_fires: "wf s \<Longrightarrow> wf (snd (timer_fires h s))"
  unfolding timer_fires_def
  by (auto intro!: wf_run_timer wf_clearTimer split: option.splits timer.splits)

lemma wf_utterance_ends: "wf s \<Longrightarrow> wf (snd (utterance_ends s))"
proof -
  assume w: "wf s"
  have a: "wf (s\<lparr>speechQueue := us\<rparr>)" for us using w by simp
  have b: "wf s2" if "setTimer t (s\<lparr>speechQueue := us\<rparr>) = (h, s2)" for t us h s2
    using wf_setTimer [OF a, of t us] that by simp
  show ?thesis
    unfolding utterance_ends_def Let_def
    using w b
    by (auto split: list.splits option.splits utterance_end.splits prod.splits)
qed

lemma wf_step: "wf s \<Longrightarrow> wf (snd (step e s))"
  by (cases e)
    (simp_all add: wf_playNotification wf_stop wf_timer_fires wf_utterance_ends wf_settles
      clearCustomCache_def source_ends_def)

lemma wf_run: "wf s \<Longrightarrow> wf (run es s)"
  by (induction es arbitrary: s) (simp_all add: wf_step)

lemma wf_reachable: "wf (run es (initial c su sp vs))"
  by (rule wf_run) (rule wf_initial)

text \<open>
  Claim C2.  The claim fails on the code.  In tts mode without loop the handler of the
  utterance's natural end invokes \<open>onPlaybackEnd\<close> and leaves it registered; a later
  \<^verbatim>\<open>stop()\<close> (by hand, by the next start, or by the duration timer) invokes it a second time.
\<close>

theorem onEnd_invoked_twice_after_natural_end:
  "invoked (run [PlayNotification tts_once ''Stand-up'' (Some 1), UtteranceEnds]
      (initial True False True [])) = [1] \<and>
   onPlaybackEnd (run [PlayNotification tts_once ''Stand-up'' (Some 1), UtteranceEnds]
      (initial True False True [])) = Some 1 \<and>
   invoked (run [PlayNotification tts_once ''Stand-up'' (Some 1), UtteranceEnds, Stop]
      (initial True False True [])) = [1, 1] \<and>
   invoked (run [PlayNotification tts_once ''Stand-up'' (Some 1), UtteranceEnds, TimerFires 1]
      (initial True False True [])) = [1, 1]"
  by (simp add: tts_once_def DEFAULT_SETTINGS_def initial_def playNotification_def
      playNotification_rest_def stop_defs setTimer_def speakText_def utterance_ends_def
      clearTimer_def timer_fires_def)

text \<open>
  Claim C4.  The claim fails on the code.  Two starts in custom mode while no decoded buffer
  is cached (two tasks due in the same tick) are both parked at the decode; when the decodes
  are fulfilled each starts its own looping buffer source, only the second is remembered in
  \<open>currentSource\<close>, and after \<^verbatim>\<open>stop()\<close> the first is still sounding with no timer left.
\<close>

theorem overlapping_custom_sources:
  "playing (run [PlayNotification custom_loop ''Stand-up'' (Some 1),
                 PlayNotification custom_loop ''Lunch'' (Some 2),
                 Settles 0 (Fulfilled 7), Settles 0 (Fulfilled 7)] (initial True False True [])) =
     [(1, BufferSource 7 0.8 True), (2, BufferSource 7 0.8 True)] \<and>
   playing (run [PlayNotification custom_loop ''Stand-up'' (Some 1),
                 PlayNotification custom_loop ''Lunch'' (Some 2),
                 Settles 0 (Fulfilled 7), Settles 0 (Fulfilled 7), Stop] (initial True False True [])) =
     [(1, BufferSource 7 0.8 True)] \<and>
   timers (run [PlayNotification custom_loop ''Stand-up'' (Some 1),
                 PlayNotification custom_loop ''Lunch'' (Some 2),
                 Settles 0 (Fulfilled 7), Settles 0 (Fulfilled 7), Stop] (initial True False True [])) = []"
  by (simp add: custom_loop_def DEFAULT_SETTINGS_def initial_def playNotification_def
      playNotification_rest_def stop_defs setTimer_def playCustom_def getContext_def
      settles_def start_node_def clearTimer_def)

text \<open>
  Claim C5.  The claim fails on the code.  The start arms the duration timer, one-shot,
  30000 ms, callback \<^verbatim>\<open>stop()\<close>.  In custom mode the looping buffer source is created only
  when the decode is fulfilled.  If the timer fires before that, \<^verbatim>\<open>stop()\<close> finds no source
  to stop, and the source started afterwards loops with no timer left.  So does the first
  source of two overlapping starts: the second start clears the first timer, and the second
  timer stops only the source in \<open>currentSource\<close>.
\<close>

theorem ceiling_misses_late_custom_source:
  "timers (run [PlayNotification custom_loop ''Stand-up'' (Some 1)]
      (initial True False True [])) = [(1, Timeout 30000 StopPlayback)] \<and>
   playing (run [PlayNotification custom_loop ''Stand-up'' (Some 1), TimerFires 1]
      (initial True False True [])) = [] \<and>
   playing (run [PlayNotification custom_loop ''Stand-up'' (Some 1), TimerFires 1,
                 Settles 0 (Fulfilled 7)] (initial True False True [])) =
     [(1, BufferSource 7 0.8 True)] \<and>
   timers (run [PlayNotification custom_loop ''Stand-up'' (Some 1), TimerFires 1,
                 Settles 0 (Fulfilled 7)] (initial True False True [])) = [] \<and>
   timers (run [PlayNotification custom_loop ''Stand-up'' (Some 1),
                 PlayNotification custom_loop ''Lunch'' (Some 2),
                 Settles 0 (Fulfilled 7), Settles 0 (Fulfilled 7)] (initial True False True [])) =
     [(2, Timeout 30000 StopPlayback)] \<and>
   playing (run [PlayNotification custom_loop ''Stand-up'' (Some 1),
                 PlayNotification custom_loop ''Lunch'' (Some 2),
                 Settles 0 (Fulfilled 7), Settles 0 (Fulfilled 7), TimerFires 2]
      (initial True False True [])) = [(1, BufferSource 7 0.8 True)] \<and>
   timers (run [PlayNotification custom_loop ''Stand-up'' (Some 1),
                 PlayNotification custom_loop ''Lunch'' (Some 2),
                 Settles 0 (Fulfilled 7), Settles 0 (Fulfilled 7), TimerFires 2]
      (initial True False True [])) = []"
  by (simp add: custom_loop_def DEFAULT_SETTINGS_def initial_def playNotification_def
      playNotification_rest_def stop_defs setTimer_def playCustom_def getContext_def
      settles_def start_node_def clearTimer_def timer_fires_def)

text \<open>
  Claim C7, as stated, fails: once the handler of the utterance's end has run, nothing is
  queued for speech; a one-shot timer of 1000 ms is pending instead.
\<close>

theorem tts_loop_pauses_before_respeaking:
  "speechQueue (run [PlayNotification tts_loop ''Stand-up'' (Some 1), UtteranceEnds]
      (initial True False True [])) = [] \<and>
   timers (run [PlayNotification tts_loop ''Stand-up'' (Some 1), UtteranceEnds]
      (initial True False True [])) =
     [(1, Timeout 30000 StopPlayback),
      (2, Timeout 1000 (SpeakLoop ''Task due: Stand-up'' 0.8 None))]"
  by (simp add: tts_loop_def DEFAULT_SETTINGS_def initial_def playNotification_def
      playNotification_rest_def stop_defs setTimer_def speakText_def speakLoop_def
      utterance_ends_def clearTimer_def Let_def)

lemma stop_steps_keep:
  "suspended (stop_sources s) = suspended s" "suspended (stop_tts s) = suspended s"
  "suspended (clear_stopTimeout s) = suspended s" "suspended (clear_loopInterval s) = suspended s"
  "suspended (trigger_callback s) = suspended s"
  "audioContext (stop_sources s) = audioContext s" "audioContext (stop_tts s) = audioContext s"
  "audioContext (clear_stopTimeout s) = audioContext s"
  "audioContext (clear_loopInterval s) = audioContext s"
  "audioContext (trigger_callback s) = audioContext s"
  "contextAvailable (stop_sources s) = contextAvailable s"
  "contextAvailable (stop_tts s) = contextAvailable s"
  "contextAvailable (clear_stopTimeout s) = contextAvailable s"
  "contextAvailable (clear_loopInterval s) = contextAvailable s"
  "contextAvailable (trigger_callback s) = contextAvailable s"
  "contextSuspended (stop_sources s) = contextSuspended s"
  "contextSuspended (stop_tts s) = contextSuspended s"
  "contextSuspended (clear_stopTimeout s) = contextSuspended s"
  "contextSuspended (clear_loopInterval s) = contextSuspended s"
  "contextSuspended (trigger_callback s) = contextSuspended s"
  "customAudioBuffer (stop_sources s) = customAudioBuffer s"
  "customAudioBuffer (stop_tts s) = customAudioBuffer s"
  "customAudioBuffer (clear_stopTimeout s) = customAudioBuffer s"
  "customAudioBuffer (clear_loopInterval s) = customAudioBuffer s"
  "customAudioBuffer (trigger_callback s) = customAudioBuffer s"
  "speechAvailable (stop_sources s) = speechAvailable s"
  "speechAvailable (stop_tts s) = speechAvailable s"
  "speechAvailable (clear_stopTimeout s) = speechAvailable s"
  "speechAvailable (clear_loopInterval s) = speechAvailable s"
  "speechAvailable (trigger_callback s) = speechAvailable s"
  "voices (stop_sources s) = voices s" "voices (stop_tts s) = voices s"
  "voices (clear_stopTimeout s) = voices s" "voices (clear_loopInterval s) = voices s"
  "voices (trigger_callback s) = voices s"
  "timerSeq (stop_sources s) = timerSeq s" "timerSeq (stop_tts s) = timerSeq s"
  "timerSeq (clear_stopTimeout s) = timerSeq s" "timerSeq (clear_loopInterval s) = timerSeq s"
  "timerSeq (trigger_callback s) = timerSeq s"
  "nodeSeq (stop_sources s) = nodeSeq s" "nodeSeq (stop_tts s) = nodeSeq s"
  "nodeSeq (clear_stopTimeout s) = nodeSeq s" "nodeSeq (clear_loopInterval s) = nodeSeq s"
  "nodeSeq (trigger_callback s) = nodeSeq s"
  by (simp_all add: stop_sources_def stop_tts_def clear_stopTimeout_def clear_loopInterval_def
      trigger_callback_def clearTimer_def split: option.splits)

lemma stop_keeps:
  "suspended (stop s) = suspended s"
  "audioContext (stop s) = audioContext s"
  "contextAvailable (stop s) = contextAvailable s"
  "contextSuspended (stop s) = contextSuspended s"
  "customAudioBuffer (stop s) = customAudioBuffer s"
  "speechAvailable (stop s) = speechAvailable s"
  "voices (stop s) = voices s"
  "timerSeq (stop s) = timerSeq s"
  "nodeSeq (stop s) = nodeSeq s"
  by (simp_all add: stop_def stop_steps_keep)

lemma setTimer_keeps:
  "suspended (snd (setTimer t s)) = suspended s"
  "audioContext (snd (setTimer t s)) = audioContext s"
  "contextAvailable (snd (setTimer t s)) = contextAvailable s"
  "customAudioBuffer (snd (setTimer t s)) = customAudioBuffer s"
  "speechAvailable (snd (setTimer t s)) = speechAvailable s"
  "voices (snd (setTimer t s)) = voices s"
  "speechQueue (snd (setTimer t s)) = speechQueue s"
  "playing (snd (setTimer t s)) = playing s"
  "nodeSeq (snd (setTimer t s)) = nodeSeq s"
  "fst (setTimer t s) = Suc (timerSeq s)"
  "timers (snd (setTimer t s)) = timers s @ [(Suc (timerSeq s), t)]"
  "timerSeq (snd (setTimer t s)) = Suc (timerSeq s)"
  by (simp_all add: setTimer_def Let_def)

text \<open>The state in which \<^verbatim>\<open>playNotification\<close> dispatches on the sound mode.\<close>

lemma playNotification_rest_custom:
  assumes "soundMode st = Custom" and "customSoundData st = Some d" and "d \<noteq> []"
  shows "playNotification_rest st ttl s =
     playCustom d (volume st) (audioLoop st)
       (if audioDuration st > 0 then
          (snd (setTimer (Timeout (audioDuration st * 1000) StopPlayback) s))
            \<lparr>stopTimeout := Some (Suc (timerSeq s))\<rparr>
        else s)"
  using assms by (simp add: playNotification_rest_def setTimer_def Let_def)

text \<open>
  Claim C6.  A start in custom mode with a payload, no cached buffer and an audio context
  that exists or can be created returns normally and parks the decode.  In every reachable
  state, when a parked decode is rejected the call returns normally, a bell oscillator is
  started with the call's volume, and it becomes \<open>currentSource\<close>.
\<close>

theorem custom_decode_failure_rings_bell:
  "(soundMode st = Custom \<and> customSoundData st = Some d \<and> d \<noteq> [] \<and>
    customAudioBuffer s = None \<and> (audioContext s \<or> contextAvailable s) \<and>
    \<not> (audioContext s \<and> contextSuspended s) \<longrightarrow>
      fst (step (PlayNotification st ttl cb) s) = Returned \<and>
      suspended (snd (step (PlayNotification st ttl cb) s)) =
        suspended s @ [AwaitDecode d (volume st) (audioLoop st)]) \<and>
   (i < length (suspended (run es (initial c su sp vs))) \<and>
    suspended (run es (initial c su sp vs)) ! i = AwaitDecode d' vol loop \<longrightarrow>
      fst (step (Settles i Rejected) (run es (initial c su sp vs))) = Returned \<and>
      playing (snd (step (Settles i Rejected) (run es (initial c su sp vs)))) =
        playing (run es (initial c su sp vs)) @
          [(Suc (nodeSeq (run es (initial c su sp vs))), Oscillator vol)] \<and>
      currentSource (snd (step (Settles i Rejected) (run es (initial c su sp vs)))) =
        Some (Suc (nodeSeq (run es (initial c su sp vs)))))"
proof -
  have start: "fst (step (PlayNotification st ttl cb) s) = Returned \<and>
      suspended (snd (step (PlayNotification st ttl cb) s)) =
        suspended s @ [AwaitDecode d (volume st) (audioLoop st)]"
    if a: "soundMode st = Custom" "customSoundData st = Some d" "d \<noteq> []"
      and b: "customAudioBuffer s = None" "audioContext s \<or> contextAvailable s"
        "\<not> (audioContext s \<and> contextSuspended s)"
  proof -
    let ?s1 = "(stop s)\<lparr>onPlaybackEnd := cb\<rparr>"
    have p: "playNotification st ttl cb s = playNotification_rest st ttl ?s1"
      using b by (auto simp: playNotification_def Let_def stop_keeps)
    show ?thesis
      using b
      by (auto simp: p playNotification_rest_custom [OF a] playCustom_def getContext_def
          stop_keeps setTimer_keeps)
  qed
  let ?r = "run es (initial c su sp vs)"
  have fail: "fst (step (Settles i Rejected) ?r) = Returned \<and>
      playing (snd (step (Settles i Rejected) ?r)) =
        playing ?r @ [(Suc (nodeSeq ?r), Oscillator vol)] \<and>
      currentSource (snd (step (Settles i Rejected) ?r)) = Some (Suc (nodeSeq ?r))"
    if i: "i < length (suspended ?r)" and k: "suspended ?r ! i = AwaitDecode d' vol loop"
  proof -
    from i have "suspended ?r \<noteq> []" by auto
    with wf_reachable [of es c su sp vs] have ctx: "audioContext ?r"
      by (simp add: wf_def)
    show ?thesis
      using i k ctx
      by (simp add: settles_def Let_def playBellSound_def getContext_def start_node_def)
  qed
  from start fail show ?thesis by blast
qed

lemma custom_parked:
  "suspended (run [PlayNotification custom_loop ''Stand-up'' (Some 1)] (initial True False True [])) =
     [AwaitDecode ''data:audio/mpeg;base64,SUQz'' 0.8 True]"
  "playing (run [PlayNotification custom_loop ''Stand-up'' (Some 1)] (initial True False True [])) = []"
  "nodeSeq (run [PlayNotification custom_loop ''Stand-up'' (Some 1)] (initial True False True [])) = 0"
  by (simp_all add: custom_loop_def DEFAULT_SETTINGS_def initial_def playNotification_def
      playNotification_rest_def stop_defs setTimer_def playCustom_def getContext_def)

theorem custom_decode_failure_rings_bell_witness:
  "fst (step (PlayNotification custom_loop ''Stand-up'' (Some 1)) (initial True False True [])) = Returned \<and>
   suspended (snd (step (PlayNotification custom_loop ''Stand-up'' (Some 1)) (initial True False True []))) =
     [AwaitDecode ''data:audio/mpeg;base64,SUQz'' 0.8 True] \<and>
   fst (step (Settles 0 Rejected)
     (run [PlayNotification custom_loop ''Stand-up'' (Some 1)] (initial True False True []))) = Returned \<and>
   playing (snd (step (Settles 0 Rejected)
     (run [PlayNotification custom_loop ''Stand-up'' (Some 1)] (initial True False True [])))) =
     [(1, Oscillator 0.8)]"
proof -
  let ?s = "initial True False True []"
  let ?es = "[PlayNotification custom_loop ''Stand-up'' (Some 1)]"
  have a: "soundMode custom_loop = Custom \<and>
      customSoundData custom_loop = Some ''data:audio/mpeg;base64,SUQz'' \<and>
      ''data:audio/mpeg;base64,SUQz'' \<noteq> [] \<and> customAudioBuffer ?s = None \<and>
      (audioContext ?s \<or> contextAvailable ?s) \<and> \<not> (audioContext ?s \<and> contextSuspended ?s)"
    by (simp add: custom_loop_def DEFAULT_SETTINGS_def initial_def)
  have v: "volume custom_loop = 0.8" "audioLoop custom_loop = True" "suspended ?s = []"
    by (simp_all add: custom_loop_def DEFAULT_SETTINGS_def initial_def)
  have b: "0 < length (suspended (run ?es ?s)) \<and>
      suspended (run ?es ?s) ! 0 = AwaitDecode ''data:audio/mpeg;base64,SUQz'' 0.8 True"
    using custom_parked by simp
  from a b v
    custom_decode_failure_rings_bell [of custom_loop "''data:audio/mpeg;base64,SUQz''" ?s
      "''Stand-up''" "Some 1" 0 ?es True False True "[]" "''data:audio/mpeg;base64,SUQz''" "0.8" True]
  show ?thesis using custom_parked by simp
qed

lemma map_of_fresh:
  "\<forall>e\<in>set xs. fst e \<noteq> h \<Longrightarrow> map_of (xs @ [(h, t)]) h = Some t"
  by (induction xs) auto

lemma filter_fresh:
  "\<forall>e\<in>set xs. fst e \<noteq> h \<Longrightarrow> filter (\<lambda>e. fst e \<noteq> h) (xs @ [(h, t)]) = xs"
  by (induction xs) auto

text \<open>
  Claim C7, amended.  In tts mode the phrase \<open>Task due: title\<close> is spoken with the configured
  volume and voice.  With \<open>audioLoop\<close>, in every reachable state the end of a chained utterance
  arms a one-shot timer of 1000 ms and records it in \<open>loopInterval\<close>; when that timer fires
  the same utterance is spoken again; \<^verbatim>\<open>stop()\<close> during the pause cancels the timer and ends
  the chain.  Without \<open>audioLoop\<close>, the natural end of the utterance invokes the registered
  \<open>onEnd\<close>, if there is one.
\<close>

theorem tts_chain_and_natural_end:
  assumes "r = run es (initial c su sp vs)"
  shows
  "(speechAvailable s \<and> soundMode st = Tts \<longrightarrow>
      speechQueue (snd (playNotification_rest st ttl s)) =
        [\<lparr>u_text = ''Task due: '' @ ttl, u_volume = volume st,
          u_voice = (case voiceURI st of
                       None \<Rightarrow> None
                     | Some v \<Rightarrow> if v \<noteq> [] \<and> v \<in> set (voices s) then Some v else None),
          u_onend = Some (if audioLoop st
                          then ChainNext (''Task due: '' @ ttl) (volume st) (voiceURI st)
                          else NaturalEnd)\<rparr>]) \<and>
   (speechAvailable r \<and> speechQueue r = u # us \<and> u_onend u = Some (ChainNext text vol uri) \<longrightarrow>
      speechQueue (snd (step UtteranceEnds r)) = us \<and>
      loopInterval (snd (step UtteranceEnds r)) = Some (Suc (timerSeq r)) \<and>
      timers (snd (step UtteranceEnds r)) =
        timers r @ [(Suc (timerSeq r), Timeout 1000 (SpeakLoop text vol uri))] \<and>
      speechQueue (snd (step (TimerFires (Suc (timerSeq r))) (snd (step UtteranceEnds r)))) =
        [\<lparr>u_text = text, u_volume = vol,
          u_voice = (case uri of
                       None \<Rightarrow> None
                     | Some v \<Rightarrow> if v \<noteq> [] \<and> v \<in> set (voices r) then Some v else None),
          u_onend = Some (ChainNext text vol uri)\<rparr>] \<and>
      timers (snd (step (TimerFires (Suc (timerSeq r))) (snd (step UtteranceEnds r)))) = timers r \<and>
      speechQueue (snd (step Stop r)) = [] \<and>
      speechQueue (snd (step Stop (snd (step UtteranceEnds r)))) = [] \<and>
      Suc (timerSeq r) \<notin> fst ` set (timers (snd (step Stop (snd (step UtteranceEnds r)))))) \<and>
   (speechQueue r = u # us \<and> u_onend u = Some NaturalEnd \<longrightarrow>
      speechQueue (snd (step UtteranceEnds r)) = us \<and>
      invoked (snd (step UtteranceEnds r)) =
        invoked r @ (case onPlaybackEnd r of Some cb \<Rightarrow> [cb] | None \<Rightarrow> []))"
proof -
  have start: "speechQueue (snd (playNotification_rest st ttl s)) =
        [\<lparr>u_text = ''Task due: '' @ ttl, u_volume = volume st,
          u_voice = (case voiceURI st of
                       None \<Rightarrow> None
                     | Some v \<Rightarrow> if v \<noteq> [] \<and> v \<in> set (voices s) then Some v else None),
          u_onend = Some (if audioLoop st
                          then ChainNext (''Task due: '' @ ttl) (volume st) (voiceURI st)
                          else NaturalEnd)\<rparr>]"
    if "speechAvailable s" "soundMode st = Tts"
    using that
    by (simp add: playNotification_rest_def speakLoop_def speakText_def setTimer_def Let_def
        split: option.splits)
  have natural: "speechQueue (snd (step UtteranceEnds r)) = us \<and>
      invoked (snd (step UtteranceEnds r)) =
        invoked r @ (case onPlaybackEnd r of Some cb \<Rightarrow> [cb] | None \<Rightarrow> [])"
    if "speechQueue r = u # us" "u_onend u = Some NaturalEnd"
    using that by (simp add: utterance_ends_def Let_def split: option.splits)
  have chain: "speechQueue (snd (step UtteranceEnds r)) = us \<and>
      loopInterval (snd (step UtteranceEnds r)) = Some (Suc (timerSeq r)) \<and>
      timers (snd (step UtteranceEnds r)) =
        timers r @ [(Suc (timerSeq r), Timeout 1000 (SpeakLoop text vol uri))] \<and>
      speechQueue (snd (step (TimerFires (Suc (timerSeq r))) (snd (step UtteranceEnds r)))) =
        [\<lparr>u_text = text, u_volume = vol,
          u_voice = (case uri of
                       None \<Rightarrow> None
                     | Some v \<Rightarrow> if v \<noteq> [] \<and> v \<in> set (voices r) then Some v else None),
          u_onend = Some (ChainNext text vol uri)\<rparr>] \<and>
      timers (snd (step (TimerFires (Suc (timerSeq r))) (snd (step UtteranceEnds r)))) = timers r \<and>
      speechQueue (snd (step Stop r)) = [] \<and>
      speechQueue (snd (step Stop (snd (step UtteranceEnds r)))) = [] \<and>
      Suc (timerSeq r) \<notin> fst ` set (timers (snd (step Stop (snd (step UtteranceEnds r)))))"
    if av: "speechAvailable r" and q: "speechQueue r = u # us"
      and e: "u_onend u = Some (ChainNext text vol uri)"
  proof -
    let ?h = "Suc (timerSeq r)"
    let ?t = "Timeout 1000 (SpeakLoop text vol uri)"
    define r2 where "r2 = snd (step UtteranceEnds r)"
    have r2: "r2 = r\<lparr>speechQueue := us, timerSeq := ?h, timers := timers r @ [(?h, ?t)],
        loopInterval := Some ?h\<rparr>"
      using q e by (simp add: r2_def utterance_ends_def setTimer_def Let_def)
    have "wf r" unfolding assms by (rule wf_reachable)
    then have fresh: "\<forall>e\<in>set (timers r). fst e \<noteq> ?h"
      by (auto simp: wf_def)
    have look: "map_of (timers r2) ?h = Some ?t"
      using map_of_fresh [OF fresh] by (simp add: r2)
    have gone: "timers (clearTimer ?h r2) = timers r"
      using filter_fresh [OF fresh] by (simp add: r2 clearTimer_def)
    have fire: "snd (step (TimerFires ?h) r2) = speakLoop text vol uri (clearTimer ?h r2)"
      by (simp add: timer_fires_def look)
    have spoken: "speechQueue (snd (step (TimerFires ?h) r2)) =
        [\<lparr>u_text = text, u_volume = vol,
          u_voice = (case uri of
                       None \<Rightarrow> None
                     | Some v \<Rightarrow> if v \<noteq> [] \<and> v \<in> set (voices r) then Some v else None),
          u_onend = Some (ChainNext text vol uri)\<rparr>]"
      unfolding fire using av
      by (simp add: speakLoop_def speakText_def clearTimer_def r2 Let_def split: option.splits)
    have left: "timers (snd (step (TimerFires ?h) r2)) = timers r"
      unfolding fire using gone by (simp add: speakLoop_def speakText_def Let_def)
    have stopped: "speechQueue (stop r2) = [] \<and> ?h \<notin> fst ` set (timers (stop r2))"
      using av by (auto simp: stop_defs r2 clearTimer_def Let_def split: option.splits)
    have silenced: "speechQueue (stop r) = []"
      using av by (simp add: stop_defs clearTimer_def split: option.splits)
    from r2 spoken left stopped silenced show ?thesis
      unfolding r2_def [symmetric] by simp
  qed
  from start natural chain show ?thesis by blast
qed

lemma speaking_loop_state:
  "speaking_loop =
     (initial True False True [])
       \<lparr>onPlaybackEnd := Some 1, stopTimeout := Some 1, timerSeq := 1,
        timers := [(1, Timeout 30000 StopPlayback)],
        speechQueue := [\<lparr>u_text = ''Task due: Stand-up'', u_volume = 0.8, u_voice = None,
          u_onend = Some (ChainNext ''Task due: Stand-up'' 0.8 None)\<rparr>]\<rparr>"
  by (simp add: speaking_loop_def tts_loop_def DEFAULT_SETTINGS_def initial_def
      playNotification_def playNotification_rest_def stop_defs setTimer_def speakText_def
      speakLoop_def Let_def)

lemma speaking_once_state:
  "speaking_once =
     (initial True False True [])
       \<lparr>onPlaybackEnd := Some 1, stopTimeout := Some 1, timerSeq := 1,
        timers := [(1, Timeout 30000 StopPlayback)],
        speechQueue := [\<lparr>u_text = ''Task due: Stand-up'', u_volume = 0.8, u_voice = None,
          u_onend = Some NaturalEnd\<rparr>]\<rparr>"
  by (simp add: speaking_once_def tts_once_def DEFAULT_SETTINGS_def initial_def
      playNotification_def playNotification_rest_def stop_defs setTimer_def speakText_def
      Let_def)

theorem tts_chain_and_natural_end_witness:
  "speechQueue (snd (playNotification_rest tts_loop ''Stand-up'' (initial True False True []))) =
     [\<lparr>u_text = ''Task due: Stand-up'', u_volume = 0.8, u_voice = None,
       u_onend = Some (ChainNext ''Task due: Stand-up'' 0.8 None)\<rparr>] \<and>
   speechQueue (snd (step UtteranceEnds speaking_loop)) = [] \<and>
   timers (snd (step UtteranceEnds speaking_loop)) =
     [(1, Timeout 30000 StopPlayback),
      (2, Timeout 1000 (SpeakLoop ''Task due: Stand-up'' 0.8 None))] \<and>
   speechQueue (snd (step (TimerFires 2) (snd (step UtteranceEnds speaking_loop)))) =
     [\<lparr>u_text = ''Task due: Stand-up'', u_volume = 0.8, u_voice = None,
       u_onend = Some (ChainNext ''Task due: Stand-up'' 0.8 None)\<rparr>] \<and>
   speechQueue (snd (step Stop (snd (step UtteranceEnds speaking_loop)))) = [] \<and>
   speechQueue (snd (step UtteranceEnds speaking_once)) = [] \<and>
   invoked (snd (step UtteranceEnds speaking_once)) = [1]"
proof -
  let ?u = "\<lparr>u_text = ''Task due: Stand-up'', u_volume = 0.8, u_voice = None,
       u_onend = Some (ChainNext ''Task due: Stand-up'' 0.8 None)\<rparr>"
  let ?v = "\<lparr>u_text = ''Task due: Stand-up'', u_volume = 0.8, u_voice = None,
       u_onend = Some NaturalEnd\<rparr>"
  have s: "speechAvailable (initial True False True []) \<and> soundMode tts_loop = Tts"
    "audioLoop tts_loop" "volume tts_loop = 0.8" "voiceURI tts_loop = None"
    by (simp_all add: initial_def tts_loop_def DEFAULT_SETTINGS_def)
  have l: "speechAvailable speaking_loop \<and> speechQueue speaking_loop = ?u # [] \<and>
      u_onend ?u = Some (ChainNext ''Task due: Stand-up'' 0.8 None)"
    "timerSeq speaking_loop = 1" "timers speaking_loop = [(1, Timeout 30000 StopPlayback)]"
    by (simp_all add: speaking_loop_state initial_def)
  have n: "speechQueue speaking_once = ?v # [] \<and> u_onend ?v = Some NaturalEnd"
    "invoked speaking_once = []" "onPlaybackEnd speaking_once = Some 1"
    by (simp_all add: speaking_once_state initial_def)
  note a = tts_chain_and_natural_end [OF speaking_loop_def,
      of "initial True False True []" tts_loop "''Stand-up''" ?u "[]" "''Task due: Stand-up''" "0.8" None]
  note b = tts_chain_and_natural_end [OF speaking_once_def,
      of "initial True False True []" tts_loop "''Stand-up''" ?v "[]" "''Task due: Stand-up''" "0.8" None]
  from a s l have
    "speechQueue (snd (playNotification_rest tts_loop ''Stand-up'' (initial True False True []))) = [?u]"
    "speechQueue (snd (step UtteranceEnds speaking_loop)) = []"
    "timers (snd (step UtteranceEnds speaking_loop)) =
       [(1, Timeout 30000 StopPlayback),
        (2, Timeout 1000 (SpeakLoop ''Task due: Stand-up'' 0.8 None))]"
    "speechQueue (snd (step (TimerFires 2) (snd (step UtteranceEnds speaking_loop)))) = [?u]"
    "speechQueue (snd (step Stop (snd (step UtteranceEnds speaking_loop)))) = []"
    by (simp_all add: numeral_2_eq_2)
  moreover from b n have
    "speechQueue (snd (step UtteranceEnds speaking_once)) = []"
    "invoked (snd (step UtteranceEnds speaking_once)) = [1]"
    by simp_all
  ultimately show ?thesis by blast
qed

lemma map_of_filter_other:
  "k \<noteq> h \<Longrightarrow> map_of (filter (\<lambda>e. fst e \<noteq> h) xs) k = map_of xs k"
  by (induction xs) auto

subsection \<open>Frame: which fields each predicate reads\<close>

lemma session_cong:
  assumes "stopTimeout s' = stopTimeout s" "timers s' = timers s" "timerSeq s' = timerSeq s"
    "loopInterval s' = loopInterval s" "playing s' = playing s"
    "currentSource s' = currentSource s" "speechQueue s' = speechQueue s"
    "speechAvailable s' = speechAvailable s" "suspended s' = suspended s"
  shows "session hc dl s' = session hc dl s"
  using assms
  by (simp add: session_def ceiling_armed_def timers_tracked_def sources_tracked_def
      speech_ok_def parked_ok_def one_mode_def only_ceiling_def looping_def)

text \<open>A new oscillator, as started by \<^verbatim>\<open>playBellSound\<close>, when nothing loops.\<close>

lemma session_start_node:
  assumes "session hc dl s" and "\<not> looping s" and "suspended s = []"
    and "loops k \<longrightarrow> speechQueue s = [] \<and> only_ceiling hc s"
  shows "session hc dl (start_node k s)"
proof -
  have t: "timers (start_node k s) = timers s" "timerSeq (start_node k s) = timerSeq s"
    "stopTimeout (start_node k s) = stopTimeout s" "loopInterval (start_node k s) = loopInterval s"
    "speechQueue (start_node k s) = speechQueue s" "speechAvailable (start_node k s) = speechAvailable s"
    "suspended (start_node k s) = suspended s"
    "playing (start_node k s) = playing s @ [(Suc (nodeSeq s), k)]"
    "currentSource (start_node k s) = Some (Suc (nodeSeq s))"
    by (simp_all add: start_node_def Let_def)
  from assms(1) have c: "ceiling_armed hc dl s" and tt: "timers_tracked hc s" and sp: "speech_ok s"
    and p: "parked_ok s" and m: "one_mode hc s"
    by (simp_all add: session_def)
  have 1: "ceiling_armed hc dl (start_node k s)" using c by (simp add: ceiling_armed_def t)
  have 2: "timers_tracked hc (start_node k s)" using tt by (simp add: timers_tracked_def t)
  have 3: "sources_tracked (start_node k s)"
    using assms(2) by (auto simp: sources_tracked_def looping_def t)
  have 4: "speech_ok (start_node k s)" using sp by (simp add: speech_ok_def t)
  have 5: "parked_ok (start_node k s)" using p by (simp add: parked_ok_def t)
  have l: "looping (start_node k s) \<longleftrightarrow> loops k"
    using assms(2) by (auto simp: looping_def t)
  have 6: "one_mode hc (start_node k s)"
    using m assms(3,4) by (auto simp: one_mode_def only_ceiling_def l t)
  from 1 2 3 4 5 6 show ?thesis by (simp add: session_def)
qed

lemma session_parts:
  "session hc dl s \<Longrightarrow> ceiling_armed hc dl s"
  "session hc dl s \<Longrightarrow> timers_tracked hc s"
  "session hc dl s \<Longrightarrow> sources_tracked s"
  "session hc dl s \<Longrightarrow> speech_ok s"
  "session hc dl s \<Longrightarrow> parked_ok s"
  "session hc dl s \<Longrightarrow> one_mode hc s"
  by (simp_all add: session_def)

lemma session_updates:
  "session hc dl (s\<lparr>audioContext := a\<rparr>) = session hc dl s"
  "session hc dl (s\<lparr>customAudioBuffer := b\<rparr>) = session hc dl s"
  "session hc dl (s\<lparr>invoked := c\<rparr>) = session hc dl s"
  by (rule session_cong; simp)+

lemma session_bell:
  assumes "session hc dl s" and "\<not> looping s" and "suspended s = []"
  shows "session hc dl (snd (playBellSound v s))"
proof (cases "getContext s")
  case None
  with assms(1) show ?thesis by (simp add: playBellSound_def)
next
  case (Some s1)
  then have "s1 = s \<or> s1 = s\<lparr>audioContext := True\<rparr>"
    by (auto simp: getContext_def split: if_splits)
  then have same: "session hc dl s1 = session hc dl s" "looping s1 = looping s"
    "suspended s1 = suspended s"
    by (auto simp: looping_def session_updates)
  have "session hc dl (start_node (Oscillator v) s1)"
    by (rule session_start_node) (use assms same in simp_all)
  with Some show ?thesis by (simp add: playBellSound_def)
qed

lemma session_source_ends:
  assumes "session hc dl s"
  shows "session hc dl (source_ends n s)"
proof -
  let ?s' = "source_ends n s"
  have t: "timers ?s' = timers s" "timerSeq ?s' = timerSeq s" "stopTimeout ?s' = stopTimeout s"
    "loopInterval ?s' = loopInterval s" "speechQueue ?s' = speechQueue s"
    "speechAvailable ?s' = speechAvailable s" "suspended ?s' = suspended s"
    "currentSource ?s' = currentSource s" "set (playing ?s') \<subseteq> set (playing s)"
    by (simp_all add: source_ends_def)
  have l: "looping ?s' \<Longrightarrow> looping s"
    using t(9) by (auto simp: looping_def)
  note p = session_parts [OF assms]
  have 1: "ceiling_armed hc dl ?s'" using p(1) by (simp add: ceiling_armed_def t)
  have 2: "timers_tracked hc ?s'" using p(2) by (simp add: timers_tracked_def t)
  have 3: "sources_tracked ?s'" using p(3) t(9) by (auto simp: sources_tracked_def t(8))
  have 4: "speech_ok ?s'" using p(4) by (simp add: speech_ok_def t)
  have 5: "parked_ok ?s'" using p(5) by (simp add: parked_ok_def t)
  have 6: "one_mode hc ?s'"
    unfolding one_mode_def only_ceiling_def t
    using p(6) [unfolded one_mode_def only_ceiling_def] l by blast
  from 1 2 3 4 5 6 show ?thesis by (simp add: session_def)
qed

lemma session_clearCustomCache: "session hc dl s \<Longrightarrow> session hc dl (clearCustomCache s)"
  by (simp add: clearCustomCache_def session_updates)

lemma session_settles:
  assumes "session hc dl s"
  shows "session hc dl (snd (settles i r s))"
proof (cases "i < length (suspended s)")
  case False
  with assms show ?thesis by (simp add: settles_def)
next
  case True
  note p = session_parts [OF assms]
  from True p(5) obtain d v l where k: "suspended s = [AwaitDecode d v l]" and i: "i = 0"
    by (cases "suspended s") (auto simp: parked_ok_def)
  from p(6) k have idle: "only_ceiling hc s" "speechQueue s = []" "\<not> looping s"
    by (auto simp: one_mode_def)
  define s1 where "s1 = s\<lparr>suspended := []\<rparr>"
  have t: "timers s1 = timers s" "timerSeq s1 = timerSeq s" "stopTimeout s1 = stopTimeout s"
    "loopInterval s1 = loopInterval s" "speechQueue s1 = speechQueue s"
    "speechAvailable s1 = speechAvailable s" "suspended s1 = []"
    "currentSource s1 = currentSource s" "playing s1 = playing s"
    by (simp_all add: s1_def)
  have l1: "\<not> looping s1" using idle(3) by (simp add: looping_def t)
  have 1: "ceiling_armed hc dl s1" using p(1) by (simp add: ceiling_armed_def t)
  have 2: "timers_tracked hc s1" using p(2) by (simp add: timers_tracked_def t)
  have 3: "sources_tracked s1" using p(3) by (simp add: sources_tracked_def t)
  have 4: "speech_ok s1" using p(4) by (simp add: speech_ok_def t)
  have 5: "parked_ok s1" by (simp add: parked_ok_def t)
  have 6: "one_mode hc s1" using l1 idle by (simp add: one_mode_def only_ceiling_def t)
  from 1 2 3 4 5 6 have s1: "session hc dl s1" by (simp add: session_def)
  have oc: "only_ceiling hc s1" using idle(1) by (simp add: only_ceiling_def t)
  show ?thesis
  proof (cases r)
    case (Fulfilled b)
    let ?s2 = "s1\<lparr>customAudioBuffer := Some b\<rparr>"
    have s2: "session hc dl ?s2" using s1 by (simp add: session_updates)
    have "session hc dl (start_node (BufferSource b v l) ?s2)"
      by (rule session_start_node [OF s2])
        (use l1 oc idle(2) in \<open>simp_all add: looping_def only_ceiling_def t\<close>)
    then show ?thesis
      by (simp add: settles_def k i Fulfilled s1_def)
  next
    case Rejected
    have "session hc dl (snd (playBellSound v s1))"
      by (rule session_bell [OF s1 l1]) (simp add: t)
    then show ?thesis
      by (simp add: settles_def k i Rejected s1_def)
  qed
qed

lemma session_utterance_ends:
  assumes "session hc dl s"
  shows "session hc dl (snd (utterance_ends s))"
proof (cases "speechQueue s")
  case Nil
  with assms show ?thesis by (simp add: utterance_ends_def)
next
  case (Cons u us)
  note p = session_parts [OF assms]
  from p(4) Cons have us: "us = []" by (simp add: speech_ok_def)
  from p(6) Cons have idle: "only_ceiling hc s" "suspended s = []" "\<not> looping s"
    by (auto simp: one_mode_def)
  define s1 where "s1 = s\<lparr>speechQueue := []\<rparr>"
  have t: "timers s1 = timers s" "timerSeq s1 = timerSeq s" "stopTimeout s1 = stopTimeout s"
    "loopInterval s1 = loopInterval s" "speechQueue s1 = []"
    "speechAvailable s1 = speechAvailable s" "suspended s1 = suspended s"
    "currentSource s1 = currentSource s" "playing s1 = playing s"
    by (simp_all add: s1_def)
  have l1: "\<not> looping s1" using idle(3) by (simp add: looping_def t)
  have 1: "ceiling_armed hc dl s1" using p(1) by (simp add: ceiling_armed_def t)
  have 2: "timers_tracked hc s1" using p(2) by (simp add: timers_tracked_def t)
  have 3: "sources_tracked s1" using p(3) by (simp add: sources_tracked_def t)
  have 4: "speech_ok s1" by (simp add: speech_ok_def t)
  have 5: "parked_ok s1" using p(5) by (simp add: parked_ok_def t)
  have 6: "one_mode hc s1" using l1 idle by (simp add: one_mode_def t)
  from 1 2 3 4 5 6 have s1: "session hc dl s1" by (simp add: session_def)
  show ?thesis
  proof (cases "u_onend u")
    case None
    with s1 show ?thesis by (simp add: utterance_ends_def Cons us s1_def)
  next
    case (Some a)
    show ?thesis
    proof (cases a)
      case NaturalEnd
      with s1 Some show ?thesis
        by (simp add: utterance_ends_def Cons us s1_def [symmetric] session_updates
            split: option.splits)
    next
      case (ChainNext phrase vol uri)
      let ?h = "Suc (timerSeq s)"
      let ?t = "Timeout 1000 (SpeakLoop phrase vol uri)"
      define s2 where "s2 = s1\<lparr>timerSeq := ?h, timers := timers s @ [(?h, ?t)],
          loopInterval := Some ?h\<rparr>"
      have r: "snd (utterance_ends s) = s2"
        by (simp add: utterance_ends_def Cons us Some ChainNext setTimer_def s1_def s2_def)
      have t2: "timers s2 = timers s @ [(?h, ?t)]" "timerSeq s2 = ?h"
        "stopTimeout s2 = stopTimeout s" "loopInterval s2 = Some ?h" "speechQueue s2 = []"
        "speechAvailable s2 = speechAvailable s" "suspended s2 = []"
        "currentSource s2 = currentSource s" "playing s2 = playing s"
        by (simp_all add: s2_def t idle(2))
      from p(1) have d: "map_of (timers s) hc = Some (Timeout dl StopPlayback)"
        by (simp add: ceiling_armed_def)
      have 1: "ceiling_armed hc dl s2"
        using p(1) d by (simp add: ceiling_armed_def t2 map_add_def)
      have 2: "timers_tracked hc s2"
        using p(2) idle(1) by (auto simp: timers_tracked_def only_ceiling_def t2)
      have 3: "sources_tracked s2" using p(3) by (simp add: sources_tracked_def t2)
      have 4: "speech_ok s2" by (simp add: speech_ok_def t2)
      have 5: "parked_ok s2" by (simp add: parked_ok_def t2)
      have "\<not> looping s2" using idle(3) by (simp add: looping_def t2)
      then have 6: "one_mode hc s2" by (simp add: one_mode_def t2)
      from 1 2 3 4 5 6 show ?thesis by (simp add: r session_def)
    qed
  qed
qed

lemma loop_timer_cases:
  assumes "loop_timer t"
  obtains (bell) d v where "t = Interval d (RingBell v)"
    | (speak) d phrase v u where "t = Timeout d (SpeakLoop phrase v u)"
  using assms by (cases t rule: loop_timer.cases) auto

lemma session_timer_fires:
  assumes "session hc dl s" and "h \<noteq> hc"
  shows "session hc dl (snd (timer_fires h s))"
proof (cases "map_of (timers s) h")
  case None
  with assms show ?thesis by (simp add: timer_fires_def)
next
  case (Some t)
  note p = session_parts [OF assms(1)]
  from Some have mem: "(h, t) \<in> set (timers s)" by (rule map_of_SomeD)
  with p(2) assms(2) have tr: "0 < h" "loopInterval s = Some h" "loop_timer t"
    by (auto simp: timers_tracked_def)
  from mem assms(2) have "\<not> only_ceiling hc s" by (force simp: only_ceiling_def)
  with p(6) have idle: "speechQueue s = []" "suspended s = []" "\<not> looping s"
    by (auto simp: one_mode_def)
  from tr(3) show ?thesis
  proof (cases t rule: loop_timer_cases)
    case (bell d v)
    have "session hc dl (snd (playBellSound v s))"
      by (rule session_bell [OF assms(1) idle(3) idle(2)])
    with Some bell show ?thesis by (simp add: timer_fires_def)
  next
    case (speak d phrase v u)
    define s1 where "s1 = clearTimer h s"
    have t1: "timers s1 = filter (\<lambda>e. fst e \<noteq> h) (timers s)" "timerSeq s1 = timerSeq s"
      "stopTimeout s1 = stopTimeout s" "loopInterval s1 = loopInterval s" "speechQueue s1 = []"
      "speechAvailable s1 = speechAvailable s" "suspended s1 = []"
      "currentSource s1 = currentSource s" "playing s1 = playing s"
      by (simp_all add: s1_def clearTimer_def idle)
    have only: "\<forall>e\<in>set (timers s1). fst e = hc"
      using p(2) tr(2) by (auto simp: timers_tracked_def t1)
    define s2 where "s2 = speakLoop phrase v u s1"
    have r: "snd (timer_fires h s) = s2"
      using Some speak by (simp add: timer_fires_def s1_def s2_def)
    have t2: "timers s2 = timers s1" "timerSeq s2 = timerSeq s"
      "stopTimeout s2 = stopTimeout s" "loopInterval s2 = loopInterval s"
      "speechAvailable s2 = speechAvailable s" "suspended s2 = []"
      "currentSource s2 = currentSource s" "playing s2 = playing s"
      "length (speechQueue s2) \<le> 1" "speechQueue s2 \<noteq> [] \<longrightarrow> speechAvailable s"
      by (simp_all add: s2_def speakLoop_def speakText_def Let_def t1)
    have 1: "ceiling_armed hc dl s2"
      using p(1) assms(2) by (simp add: ceiling_armed_def t2 t1 map_of_filter_other)
    have 2: "timers_tracked hc s2"
      using p(2) by (simp add: timers_tracked_def t2 t1)
    have 3: "sources_tracked s2" using p(3) by (simp add: sources_tracked_def t2)
    have 4: "speech_ok s2" using t2(9,10) by (simp add: speech_ok_def t2(5))
    have 5: "parked_ok s2" by (simp add: parked_ok_def t2)
    have "\<not> looping s2" using idle(3) by (simp add: looping_def t2)
    then have 6: "one_mode hc s2" using only by (simp add: one_mode_def only_ceiling_def t2)
    from 1 2 3 4 5 6 show ?thesis by (simp add: r session_def)
  qed
qed

lemma session_step:
  assumes "session hc dl s" and "internal hc e"
  shows "session hc dl (snd (step e s))"
  using assms
  by (cases e)
    (simp_all add: session_timer_fires session_utterance_ends session_source_ends
      session_settles session_clearCustomCache)

lemma session_run:
  "session hc dl s \<Longrightarrow> \<forall>e\<in>set es. internal hc e \<Longrightarrow> session hc dl (run es s)"
  by (induction es arbitrary: s) (simp_all add: session_step)

lemma quiet_stop_steps:
  "quiet s \<Longrightarrow> quiet (stop_sources s)"
  "quiet s \<Longrightarrow> quiet (stop_tts s)"
  "quiet s \<Longrightarrow> quiet (clear_stopTimeout s)"
  "quiet s \<Longrightarrow> quiet (clear_loopInterval s)"
  "quiet s \<Longrightarrow> quiet (trigger_callback s)"
  by (simp_all add: quiet_def looping_def stop_sources_def stop_tts_def clear_stopTimeout_def
      clear_loopInterval_def trigger_callback_def clearTimer_def split: option.splits)

lemma quiet_stop: "quiet s \<Longrightarrow> quiet (stop s)"
  by (simp add: stop_def quiet_stop_steps)

lemma armed_after_setTimer:
  assumes "quiet s"
  shows "armed (Suc (timerSeq s)) d
     ((snd (setTimer (Timeout d StopPlayback) s))\<lparr>stopTimeout := Some (Suc (timerSeq s))\<rparr>)"
  using assms
  by (simp add: armed_def session_def quiet_def setTimer_def Let_def ceiling_armed_def
      timers_tracked_def sources_tracked_def speech_ok_def parked_ok_def one_mode_def
      only_ceiling_def looping_def)

lemma session_speakText:
  assumes "armed hc dl s"
  shows "session hc dl (speakText phrase vol uri onEnd s)"
proof (cases "speechAvailable s")
  case False
  with assms show ?thesis by (simp add: speakText_def armed_def)
next
  case True
  let ?s' = "speakText phrase vol uri onEnd s"
  from assms have a: "session hc dl s" "only_ceiling hc s" "speechQueue s = []" "suspended s = []"
    "\<not> looping s"
    by (simp_all add: armed_def)
  note p = session_parts [OF a(1)]
  have t: "timers ?s' = timers s" "timerSeq ?s' = timerSeq s" "stopTimeout ?s' = stopTimeout s"
    "loopInterval ?s' = loopInterval s" "speechAvailable ?s' = True" "suspended ?s' = []"
    "currentSource ?s' = currentSource s" "playing ?s' = playing s"
    "length (speechQueue ?s') = 1"
    using True a(4) by (simp_all add: speakText_def Let_def)
  have 1: "ceiling_armed hc dl ?s'" using p(1) by (simp add: ceiling_armed_def t)
  have 2: "timers_tracked hc ?s'" using p(2) by (simp add: timers_tracked_def t)
  have 3: "sources_tracked ?s'" using p(3) by (simp add: sources_tracked_def t)
  have 4: "speech_ok ?s'" by (simp add: speech_ok_def t)
  have 5: "parked_ok ?s'" by (simp add: parked_ok_def t)
  have "\<not> looping ?s'" using a(5) by (simp add: looping_def t)
  then have 6: "one_mode hc ?s'" using a(2) by (simp add: one_mode_def only_ceiling_def t)
  from 1 2 3 4 5 6 show ?thesis by (simp add: session_def)
qed

lemma armed_context: "armed hc dl s \<Longrightarrow> getContext s = Some s1 \<Longrightarrow> armed hc dl s1"
  by (auto simp: getContext_def armed_def session_updates only_ceiling_def looping_def
      split: if_splits)

lemma session_park:
  assumes "armed hc dl s"
  shows "session hc dl (s\<lparr>suspended := suspended s @ [AwaitDecode d v l]\<rparr>)"
proof -
  let ?s' = "s\<lparr>suspended := suspended s @ [AwaitDecode d v l]\<rparr>"
  from assms have a: "session hc dl s" "only_ceiling hc s" "speechQueue s = []" "suspended s = []"
    "\<not> looping s"
    by (simp_all add: armed_def)
  note p = session_parts [OF a(1)]
  have t: "timers ?s' = timers s" "timerSeq ?s' = timerSeq s" "stopTimeout ?s' = stopTimeout s"
    "loopInterval ?s' = loopInterval s" "speechQueue ?s' = []"
    "suspended ?s' = [AwaitDecode d v l]"
    "currentSource ?s' = currentSource s" "playing ?s' = playing s"
    using a(3,4) by simp_all
  have 1: "ceiling_armed hc dl ?s'" using p(1) by (simp add: ceiling_armed_def)
  have 2: "timers_tracked hc ?s'" using p(2) by (simp add: timers_tracked_def)
  have 3: "sources_tracked ?s'" using p(3) by (simp add: sources_tracked_def)
  have 4: "speech_ok ?s'" by (simp add: speech_ok_def t)
  have 5: "parked_ok ?s'" by (simp add: parked_ok_def t)
  have "\<not> looping ?s'" using a(5) by (simp add: looping_def)
  then have 6: "one_mode hc ?s'" using a(2) by (simp add: one_mode_def only_ceiling_def t)
  from 1 2 3 4 5 6 show ?thesis by (simp add: session_def)
qed

lemma session_playCustom:
  assumes "armed hc dl s"
  shows "session hc dl (snd (playCustom d v l s))"
proof (cases "getContext s")
  case None
  from assms have "session hc dl (snd (playBellSound v s))"
    by (intro session_bell) (simp_all add: armed_def)
  with None show ?thesis by (simp add: playCustom_def)
next
  case (Some s1)
  note a1 = armed_context [OF assms Some]
  show ?thesis
  proof (cases "customAudioBuffer s1")
    case None
    with Some session_park [OF a1] show ?thesis by (simp add: playCustom_def)
  next
    case (Some b)
    from a1 have "session hc dl (start_node (BufferSource b v l) s1)"
      by (intro session_start_node) (simp_all add: armed_def)
    with Some \<open>getContext s = Some s1\<close> show ?thesis by (simp add: playCustom_def)
  qed
qed

lemma armed_start_oscillator:
  assumes "armed hc dl s"
  shows "armed hc dl (start_node (Oscillator v) s)"
proof -
  from assms have a: "session hc dl s" "only_ceiling hc s" "speechQueue s = []"
    "suspended s = []" "\<not> looping s"
    by (simp_all add: armed_def)
  have "session hc dl (start_node (Oscillator v) s)"
    by (rule session_start_node) (use a in simp_all)
  with a show ?thesis
    by (simp add: armed_def only_ceiling_def looping_def start_node_def Let_def)
qed

lemma armed_bell:
  assumes "armed hc dl s"
  shows "armed hc dl (snd (playBellSound v s))"
proof (cases "getContext s")
  case None
  with assms show ?thesis by (simp add: playBellSound_def)
next
  case (Some s1)
  from armed_start_oscillator [OF armed_context [OF assms Some]] Some
  show ?thesis by (simp add: playBellSound_def)
qed

lemma session_arm_loop:
  assumes "armed hc dl s"
  shows "session hc dl
     ((snd (setTimer (Interval d (RingBell v)) s))\<lparr>loopInterval := Some (Suc (timerSeq s))\<rparr>)"
proof -
  let ?h = "Suc (timerSeq s)"
  let ?s' = "(snd (setTimer (Interval d (RingBell v)) s))\<lparr>loopInterval := Some ?h\<rparr>"
  from assms have a: "session hc dl s" "only_ceiling hc s" "speechQueue s = []"
    "suspended s = []" "\<not> looping s"
    by (simp_all add: armed_def)
  note p = session_parts [OF a(1)]
  have t: "timers ?s' = timers s @ [(?h, Interval d (RingBell v))]" "timerSeq ?s' = ?h"
    "stopTimeout ?s' = stopTimeout s" "loopInterval ?s' = Some ?h" "speechQueue ?s' = []"
    "suspended ?s' = []" "currentSource ?s' = currentSource s" "playing ?s' = playing s"
    using a(3,4) by (simp_all add: setTimer_def Let_def)
  have 1: "ceiling_armed hc dl ?s'" using p(1) by (simp add: ceiling_armed_def t map_add_def)
  have 2: "timers_tracked hc ?s'"
    using p(2) a(2) by (auto simp: timers_tracked_def only_ceiling_def t)
  have 3: "sources_tracked ?s'" using p(3) by (simp add: sources_tracked_def t)
  have 4: "speech_ok ?s'" by (simp add: speech_ok_def t)
  have 5: "parked_ok ?s'" by (simp add: parked_ok_def t)
  have "\<not> looping ?s'" using a(5) by (simp add: looping_def t)
  then have 6: "one_mode hc ?s'" by (simp add: one_mode_def t)
  from 1 2 3 4 5 6 show ?thesis by (simp add: session_def)
qed

lemma session_bell_branch:
  assumes "armed hc dl s"
  shows "session hc dl (snd (bell_branch st s))"
proof (cases "audioLoop st")
  case False
  with armed_bell [OF assms, of "volume st"] show ?thesis
    by (simp add: bell_branch_def armed_def)
next
  case True
  obtain out s1 where b: "playBellSound (volume st) s = (out, s1)"
    by (cases "playBellSound (volume st) s") auto
  with armed_bell [OF assms, of "volume st"] have a1: "armed hc dl s1" by simp
  show ?thesis
  proof (cases out)
    case Threw
    with True b a1 show ?thesis by (simp add: bell_branch_def armed_def)
  next
    case Returned
    with True b session_arm_loop [OF a1, of 1000 "volume st"] show ?thesis
      by (simp add: bell_branch_def setTimer_def Let_def)
  qed
qed

lemma session_rest:
  assumes "quiet s" and "0 < audioDuration st"
  shows "session (Suc (timerSeq s)) (audioDuration st * 1000)
     (snd (playNotification_rest st ttl s))"
proof -
  let ?hc = "Suc (timerSeq s)" and ?dl = "audioDuration st * 1000"
  define s1 where "s1 = (snd (setTimer (Timeout ?dl StopPlayback) s))\<lparr>stopTimeout := Some ?hc\<rparr>"
  have a: "armed ?hc ?dl s1"
    unfolding s1_def by (rule armed_after_setTimer [OF assms(1)])
  have r: "playNotification_rest st ttl s =
     (if soundMode st = Tts then
        (if audioLoop st
         then (Returned, speakLoop (''Task due: '' @ ttl) (volume st) (voiceURI st) s1)
         else (Returned, speakText (''Task due: '' @ ttl) (volume st) (voiceURI st)
                 (Some NaturalEnd) s1))
      else (case customSoundData st of
              Some d \<Rightarrow>
                if soundMode st = Custom \<and> d \<noteq> [] then playCustom d (volume st) (audioLoop st) s1
                else bell_branch st s1
            | None \<Rightarrow> bell_branch st s1))"
    using assms(2)
    by (simp add: playNotification_rest_def s1_def setTimer_def Let_def split: option.splits)
  show ?thesis
    unfolding r
    by (simp add: speakLoop_def session_speakText [OF a] session_playCustom [OF a]
        session_bell_branch [OF a] split: option.splits)
qed

text \<open>
  A start runs the rest of \<^verbatim>\<open>playNotification\<close> at once, or, when the context is suspended,
  as soon as \<^verbatim>\<open>resume()\<close> is fulfilled.
\<close>

lemma start_direct:
  assumes "\<not> (audioContext s \<and> contextSuspended s)"
  shows "snd (step (PlayNotification st ttl cb) s) =
     snd (playNotification_rest st ttl ((stop s)\<lparr>onPlaybackEnd := cb\<rparr>))"
  using assms by (auto simp: playNotification_def Let_def stop_keeps)

lemma start_resumed:
  assumes "audioContext s \<and> contextSuspended s" and "suspended (stop s) = []"
  shows "snd (step (Settles 0 (Fulfilled b)) (snd (step (PlayNotification st ttl cb) s))) =
     snd (playNotification_rest st ttl
       ((stop s)\<lparr>onPlaybackEnd := cb, suspended := [], contextSuspended := False\<rparr>))"
  using assms by (simp add: playNotification_def settles_def Let_def stop_keeps)

lemma session_start:
  assumes "quiet (stop s)" and "0 < audioDuration st"
  shows "session (Suc (timerSeq s)) (audioDuration st * 1000)
     (if audioContext s \<and> contextSuspended s
      then snd (step (Settles 0 (Fulfilled b)) (snd (step (PlayNotification st ttl cb) s)))
      else snd (step (PlayNotification st ttl cb) s))"
proof (cases "audioContext s \<and> contextSuspended s")
  case False
  let ?sr = "(stop s)\<lparr>onPlaybackEnd := cb\<rparr>"
  have q: "quiet ?sr"
    using assms(1) by (simp add: quiet_def looping_def)
  from session_rest [OF q assms(2), of ttl] False show ?thesis
    by (simp only: start_direct [OF False] if_False) (simp add: stop_keeps)
next
  case True
  let ?sr = "(stop s)\<lparr>onPlaybackEnd := cb, suspended := [], contextSuspended := False\<rparr>"
  have q: "quiet ?sr" and e: "suspended (stop s) = []"
    using assms(1) by (simp_all add: quiet_def looping_def)
  from session_rest [OF q assms(2), of ttl] True show ?thesis
    by (simp only: start_resumed [OF True e] if_True) (simp add: stop_keeps)
qed

text \<open>When the ceiling timer fires, \<^verbatim>\<open>stop\<close> runs and leaves nothing behind.\<close>

lemma ceiling_fires:
  assumes "session hc dl s"
  shows "step (TimerFires hc) s = (Returned, stop (clearTimer hc s))"
  using session_parts(1) [OF assms]
  by (simp add: timer_fires_def ceiling_armed_def)

text \<open>\<^verbatim>\<open>stop\<close> silences every state whose timers and looping sources it tracks.\<close>

lemma stop_silences:
  assumes tt: "\<forall>e\<in>set (timers s).
      0 < fst e \<and> (stopTimeout s = Some (fst e) \<or> loopInterval s = Some (fst e))"
    and src: "sources_tracked s" and sp: "speech_ok s" and par: "suspended s = []"
  shows "quiet (stop s)"
proof -
  define s1 where "s1 = stop_sources s"
  define s2 where "s2 = stop_tts s1"
  define s3 where "s3 = clear_stopTimeout s2"
  define s4 where "s4 = clear_loopInterval s3"
  have st: "stop s = trigger_callback s4"
    by (simp add: stop_def s1_def s2_def s3_def s4_def)
  have t1: "timers s1 = timers s" "\<not> looping s1" "speechQueue s1 = speechQueue s"
    "speechAvailable s1 = speechAvailable s" "suspended s1 = []"
    "loopInterval s1 = loopInterval s" "stopTimeout s1 = stopTimeout s"
    using src par
    by (auto simp: s1_def stop_sources_def looping_def sources_tracked_def split: option.splits)
  have t2: "timers s2 = timers s" "\<not> looping s2" "speechQueue s2 = []" "suspended s2 = []"
    "loopInterval s2 = loopInterval s" "stopTimeout s2 = stopTimeout s"
    using sp t1 by (auto simp: s2_def stop_tts_def looping_def speech_ok_def)
  have t3: "\<not> looping s3" "speechQueue s3 = []" "suspended s3 = []"
    "loopInterval s3 = loopInterval s"
    using t2
    by (simp_all add: s3_def clear_stopTimeout_def clearTimer_def looping_def split: option.splits)
  have rest: "\<forall>e\<in>set (timers s3). 0 < fst e \<and> loopInterval s = Some (fst e)"
    using tt by (auto simp: s3_def clear_stopTimeout_def clearTimer_def t2 split: option.splits)
  have t4: "timers s4 = []" "\<not> looping s4" "speechQueue s4 = []" "suspended s4 = []"
  proof -
    show "timers s4 = []"
    proof (cases "timers s3")
      case Nil
      then show ?thesis
        by (simp add: s4_def clear_loopInterval_def clearTimer_def split: option.splits)
    next
      case (Cons e es)
      with rest have h: "0 < fst e" "loopInterval s = Some (fst e)" by simp_all
      from rest h have "filter (\<lambda>x. fst x \<noteq> fst e) (timers s3) = []"
        by (auto simp: filter_empty_conv)
      with h show ?thesis
        by (simp add: s4_def clear_loopInterval_def clearTimer_def t3)
    qed
    show "\<not> looping s4" "speechQueue s4 = []" "suspended s4 = []"
      using t3 by (simp_all add: s4_def clear_loopInterval_def clearTimer_def looping_def
          split: option.splits)
  qed
  from t4 show ?thesis
    unfolding st by (simp add: quiet_def looping_def trigger_callback_def split: option.splits)
qed

lemma ceiling_silences:
  assumes "session hc dl s" and "suspended s = []"
  shows "quiet (stop (clearTimer hc s))"
proof (rule stop_silences)
  note p = session_parts [OF assms(1)]
  show "\<forall>e\<in>set (timers (clearTimer hc s)).
      0 < fst e \<and> (stopTimeout (clearTimer hc s) = Some (fst e) \<or>
        loopInterval (clearTimer hc s) = Some (fst e))"
    using p(2) by (auto simp: timers_tracked_def clearTimer_def)
  show "sources_tracked (clearTimer hc s)"
    using p(3) by (simp add: sources_tracked_def clearTimer_def)
  show "speech_ok (clearTimer hc s)"
    using p(4) by (simp add: speech_ok_def clearTimer_def)
  show "suspended (clearTimer hc s) = []"
    using assms(2) by (simp add: clearTimer_def)
qed

text \<open>A session with no parked call is one that \<^verbatim>\<open>stop\<close> silences: a new start may follow it.\<close>

lemma session_stop_quiet:
  assumes "session hc dl s" and "suspended s = []"
  shows "quiet (stop s)"
proof (rule stop_silences)
  note p = session_parts [OF assms(1)]
  show "\<forall>e\<in>set (timers s).
      0 < fst e \<and> (stopTimeout s = Some (fst e) \<or> loopInterval s = Some (fst e))"
    using p(1,2) by (auto simp: timers_tracked_def ceiling_armed_def)
qed (use session_parts [OF assms(1)] assms(2) in simp_all)

lemma timers_kept:
  "timers (start_node k s) = timers s"
  "timers (speakText phrase vol uri onEnd s) = timers s"
  "timers (snd (playBellSound v s)) = timers s"
  "timers (snd (playCustom d v l s)) = timers s"
  by (simp_all add: start_node_def speakText_def playBellSound_def playCustom_def getContext_def
      Let_def split: option.splits)

lemma timers_bell_branch:
  "timers (snd (bell_branch st s)) = timers s \<or>
   (\<exists>h. timers (snd (bell_branch st s)) = timers s @ [(h, Interval 1000 (RingBell (volume st)))])"
proof -
  obtain out s1 where b: "playBellSound (volume st) s = (out, s1)"
    by (cases "playBellSound (volume st) s") auto
  with timers_kept(3) [of "volume st" s] have "timers s1 = timers s" by simp
  with b show ?thesis
    by (cases out) (simp_all add: bell_branch_def setTimer_def Let_def)
qed

lemma no_ceiling_rest:
  assumes "\<not> 0 < audioDuration st" and "timers s = []"
  shows "\<forall>e\<in>set (timers (snd (playNotification_rest st ttl s))). \<forall>d. snd e \<noteq> Timeout d StopPlayback"
proof -
  have b: "\<forall>e\<in>set (timers (snd (bell_branch st s))). \<forall>d. snd e \<noteq> Timeout d StopPlayback"
    using timers_bell_branch [of st s] assms(2) by auto
  show ?thesis
    using assms b
    by (simp add: playNotification_rest_def Let_def speakLoop_def timers_kept split: option.splits)
qed

text \<open>
  What the duration timer does achieve.  Let a start be issued in a state that \<^verbatim>\<open>stop()\<close>
  silences, and let \<open>s1\<close> be the state once the start has run (when the context is
  suspended: once \<^verbatim>\<open>resume()\<close> is fulfilled).  If \<open>audioDuration > 0\<close> the start arms a
  one-shot timer of \<open>audioDuration * 1000\<close> ms whose callback is \<^verbatim>\<open>stop()\<close> and records it in
  \<open>stopTimeout\<close>; the timer stays armed through every event of the session (loop timers
  firing, utterances and sources ending, the decode settling); when it fires, \<^verbatim>\<open>stop()\<close>
  runs.  Only if the decode has settled by then is the player silent afterwards: no timer,
  no queued speech and no looping source is left.  If \<open>audioDuration \<le> 0\<close> the start arms no
  such timer.
\<close>

lemma ceiling_after_settled_decode:
  assumes "quiet (stop s0)"
    and "s1 = (if audioContext s0 \<and> contextSuspended s0
               then snd (step (Settles 0 (Fulfilled b)) (snd (step (PlayNotification st ttl cb) s0)))
               else snd (step (PlayNotification st ttl cb) s0))"
    and "\<forall>e\<in>set es. internal (Suc (timerSeq s0)) e" and "s2 = run es s1"
  shows
    "(0 < audioDuration st \<longrightarrow>
        stopTimeout s1 = Some (Suc (timerSeq s0)) \<and>
        map_of (timers s1) (Suc (timerSeq s0)) =
          Some (Timeout (audioDuration st * 1000) StopPlayback) \<and>
        map_of (timers s2) (Suc (timerSeq s0)) =
          Some (Timeout (audioDuration st * 1000) StopPlayback) \<and>
        step (TimerFires (Suc (timerSeq s0))) s2 =
          (Returned, stop (clearTimer (Suc (timerSeq s0)) s2)) \<and>
        (suspended s2 = [] \<longrightarrow> quiet (snd (step (TimerFires (Suc (timerSeq s0))) s2)))) \<and>
     (audioDuration st \<le> 0 \<longrightarrow>
        (\<forall>e\<in>set (timers s1). \<forall>d. snd e \<noteq> Timeout d StopPlayback))"
proof -
  let ?hc = "Suc (timerSeq s0)" and ?dl = "audioDuration st * 1000"
  have capped: "stopTimeout s1 = Some ?hc \<and>
        map_of (timers s1) ?hc = Some (Timeout ?dl StopPlayback) \<and>
        map_of (timers s2) ?hc = Some (Timeout ?dl StopPlayback) \<and>
        step (TimerFires ?hc) s2 = (Returned, stop (clearTimer ?hc s2)) \<and>
        (suspended s2 = [] \<longrightarrow> quiet (snd (step (TimerFires ?hc) s2)))"
    if n: "0 < audioDuration st"
  proof -
    have i1: "session ?hc ?dl s1"
      unfolding assms(2) by (rule session_start [OF assms(1) n])
    then have i2: "session ?hc ?dl s2"
      unfolding assms(4) using assms(3) by (rule session_run)
    from i1 i2 have c: "ceiling_armed ?hc ?dl s1" "ceiling_armed ?hc ?dl s2"
      by (simp_all add: session_def)
    have f: "step (TimerFires ?hc) s2 = (Returned, stop (clearTimer ?hc s2))"
      by (rule ceiling_fires [OF i2])
    have "quiet (snd (step (TimerFires ?hc) s2))" if "suspended s2 = []"
      unfolding f using ceiling_silences [OF i2 that] by simp
    with c f show ?thesis by (simp add: ceiling_armed_def)
  qed
  have uncapped: "\<forall>e\<in>set (timers s1). \<forall>d. snd e \<noteq> Timeout d StopPlayback"
    if n: "audioDuration st \<le> 0"
  proof -
    let ?sa = "(stop s0)\<lparr>onPlaybackEnd := cb\<rparr>"
    let ?sb = "(stop s0)\<lparr>onPlaybackEnd := cb, suspended := [], contextSuspended := False\<rparr>"
    have q: "timers ?sa = []" "timers ?sb = []" and e: "suspended (stop s0) = []"
      using assms(1) by (simp_all add: quiet_def)
    have "s1 = snd (playNotification_rest st ttl ?sa) \<or> s1 = snd (playNotification_rest st ttl ?sb)"
    proof (cases "audioContext s0 \<and> contextSuspended s0")
      case False
      then show ?thesis
        unfolding assms(2) by (simp only: start_direct [OF False] if_False) simp
    next
      case True
      then show ?thesis
        unfolding assms(2) by (simp only: start_resumed [OF True e] if_True) simp
    qed
    with no_ceiling_rest [OF _ q(1), of st ttl] no_ceiling_rest [OF _ q(2), of st ttl] n
    show ?thesis by auto
  qed
  from capped uncapped show ?thesis by blast
qed

lemma ringing_state:
  "ringing =
     (initial True False True [])
       \<lparr>audioContext := True, currentSource := Some 1, stopTimeout := Some 1,
        loopInterval := Some 2, onPlaybackEnd := Some 1,
        timers := [(1, Timeout 30000 StopPlayback), (2, Interval 1000 (RingBell 0.8))],
        timerSeq := 2, playing := [(1, Oscillator 0.8)], nodeSeq := 1\<rparr>"
  by (simp add: ringing_def DEFAULT_SETTINGS_def initial_def playNotification_def
      playNotification_rest_def stop_defs setTimer_def bell_branch_def playBellSound_def
      getContext_def start_node_def Let_def)

lemma ringing_later:
  "suspended (run [TimerFires 2, SourceEnds 1, TimerFires 2] ringing) = []"
  by (simp add: ringing_state initial_def timer_fires_def playBellSound_def getContext_def
      start_node_def source_ends_def Let_def)

lemma ceiling_after_settled_decode_ringing:
  "quiet (stop (initial True False True [])) \<and>
   map_of (timers ringing) 1 = Some (Timeout 30000 StopPlayback) \<and>
   suspended (run [TimerFires 2, SourceEnds 1, TimerFires 2] ringing) = [] \<and>
   quiet (snd (step (TimerFires 1) (run [TimerFires 2, SourceEnds 1, TimerFires 2] ringing)))"
proof -
  let ?s0 = "initial True False True []"
  let ?es = "[TimerFires 2, SourceEnds 1, TimerFires 2]"
  have q0: "quiet ?s0" and c: "\<not> (audioContext ?s0 \<and> contextSuspended ?s0)"
    and z: "Suc (timerSeq ?s0) = 1"
    by (simp_all add: quiet_def looping_def initial_def)
  note q = quiet_stop [OF q0]
  have i: "\<forall>e\<in>set ?es. internal (Suc (timerSeq ?s0)) e"
    by (simp add: z)
  have n: "0 < audioDuration DEFAULT_SETTINGS" "audioDuration DEFAULT_SETTINGS * 1000 = 30000"
    by (simp_all add: DEFAULT_SETTINGS_def)
  have r: "ringing =
      (if audioContext ?s0 \<and> contextSuspended ?s0
       then snd (step (Settles 0 (Fulfilled 0))
         (snd (step (PlayNotification DEFAULT_SETTINGS ''Stand-up'' (Some 1)) ?s0)))
       else snd (step (PlayNotification DEFAULT_SETTINGS ''Stand-up'' (Some 1)) ?s0))"
    unfolding ringing_def using c by (simp only: if_False)
  note d = ceiling_after_settled_decode [OF q r i refl]
  from d n(1) have a: "map_of (timers ringing) (Suc (timerSeq ?s0)) =
      Some (Timeout (audioDuration DEFAULT_SETTINGS * 1000) StopPlayback)"
    by blast
  from d n(1) ringing_later
  have b: "quiet (snd (step (TimerFires (Suc (timerSeq ?s0))) (run ?es ringing)))"
    by blast
  from a [unfolded z n(2)] b [unfolded z] q ringing_later show ?thesis
    by blast
qed

end
